theory Spec2Isabelle
  imports Complex_Main "HOL-Library.AList"
begin

section \<open>The Tinkoff gRPC-web trader: data model\<close>

text \<open>
  A shallow embedding of \<^verbatim>\<open>src/shared/traders/tinkoff-grpc-web.js\<close>.

  JavaScript numbers that hold fractional values (prices, the argument of
  \<^verbatim>\<open>toQuotation\<close>, the reconnect delay) are reals. \<open>toQuotation\<close> and \<open>toNumber\<close>
  compute on them exactly; \<open>toQuotation_double\<close> and \<open>toNumber_double\<close> are the same
  two functions with every arithmetic operation rounded to the nearest IEEE double.
  Integer-valued numbers (units, nano, quantities, epoch milliseconds) are \<open>int\<close>. A JavaScript \<^verbatim>\<open>Map\<close> whose iteration
  order the code relies on is an association list with distinct keys in insertion order:
  \<open>AList.update\<close> is \<^verbatim>\<open>Map.prototype.set\<close> (an existing key keeps its place, a new one
  goes last), \<open>AList.delete\<close> is \<^verbatim>\<open>delete\<close>, \<open>map_of\<close> is \<^verbatim>\<open>get\<close>.
\<close>

subsection \<open>Quotations\<close>

record quotation =
  units :: int
  nano :: int

text \<open>\<^verbatim>\<open>Math.round\<close>: the nearest integer, a tie going up.\<close>

definition Math_round :: "real \<Rightarrow> int" where
  "Math_round y = \<lfloor>y + 1 / 2\<rfloor>"

definition toQuotation :: "real \<Rightarrow> quotation" where
  "toQuotation value =
     (let sign = (if value < 0 then - 1 else 1);
          absValue = \<bar>value\<bar>;
          units = \<lfloor>absValue\<rfloor>;
          nano = Math_round ((absValue - of_int units) * 1000000000)
      in \<lparr>units = sign * units, nano = sign * nano\<rparr>)"

text \<open>
  \<^verbatim>\<open>toNumber(value)\<close> returns a falsy \<^verbatim>\<open>value\<close> (a missing quotation) as it is:
  \<open>None\<close> stands for \<^verbatim>\<open>undefined\<close>.
\<close>

definition toNumber :: "quotation option \<Rightarrow> real option" where
  "toNumber value =
     (case value of
        Some q \<Rightarrow> Some (of_int (units q) + of_int (nano q) / 1000000000)
      | None \<Rightarrow> None)"

subsection \<open>Double arithmetic\<close>

text \<open>
  The functions above compute on reals exactly. The code computes on IEEE 754 binary64
  numbers, where every arithmetic operation returns the double nearest to its exact
  result, a tie going to the double whose last significand bit is zero. A double is
  modelled as the real it denotes.

  \<open>ulp_exp z\<close> is the exponent of the unit in the last place at the magnitude of \<open>z\<close>:
  a number in \<open>[2\<^sup>k, 2\<^sup>k\<^sup>+\<^sup>1)\<close> has a significand of 53 bits, so that the doubles
  around it are the multiples of \<open>2\<^sup>k\<^sup>-\<^sup>5\<^sup>2\<close>; below \<open>2\<^sup>-\<^sup>1\<^sup>0\<^sup>2\<^sup>2\<close> (the subnormal
  range, and zero) they are the multiples of \<open>2\<^sup>-\<^sup>1\<^sup>0\<^sup>7\<^sup>4\<close>.
\<close>

definition pow2 :: "int \<Rightarrow> real" where
  "pow2 e = 2 powr real_of_int e"

definition ulp_exp :: "real \<Rightarrow> int" where
  "ulp_exp z = (if z = 0 then - 1074 else max (\<lfloor>log 2 \<bar>z\<bar>\<rfloor> - 52) (- 1074))"

definition ulp :: "real \<Rightarrow> real" where
  "ulp z = pow2 (ulp_exp z)"

text \<open>The nearest integer, a tie going to the even one.\<close>

definition round_half_even :: "real \<Rightarrow> int" where
  "round_half_even t =
     (let n = \<lfloor>t\<rfloor>; r = t - of_int n
      in if r < 1 / 2 then n
         else if 1 / 2 < r then n + 1
         else if even n then n else n + 1)"

text \<open>
  \<open>to_double z\<close> is the rounding of the exact result \<open>z\<close> of an operation: the nearest
  multiple of \<open>ulp z\<close>. It does not model the overflow to \<^verbatim>\<open>Infinity\<close>: the result of
  an operation is finite when its magnitude is at most \<^verbatim>\<open>Number.MAX_VALUE\<close>, and for
  the operations below that is proved, not assumed.

  \<open>is_double x\<close>: \<open>x\<close> is a finite JavaScript number.
\<close>

definition to_double :: "real \<Rightarrow> real" where
  "to_double z = of_int (round_half_even (z / ulp z)) * ulp z"

definition MAX_VALUE :: real where
  "MAX_VALUE = (2 ^ 53 - 1) * 2 ^ 971"

definition is_double :: "real \<Rightarrow> bool" where
  "is_double x = (to_double x = x \<and> \<bar>x\<bar> \<le> MAX_VALUE)"

text \<open>
  \<^verbatim>\<open>toQuotation\<close> and \<^verbatim>\<open>toNumber\<close> as the code runs them: the subtraction, the product
  with \<open>10\<^sup>9\<close>, the division by \<open>10\<^sup>9\<close> and the sum are each rounded to a double.
  \<^verbatim>\<open>Math.abs\<close>, \<^verbatim>\<open>Math.floor\<close>, \<^verbatim>\<open>Math.round\<close> and the products with the sign are
  exact on doubles of the magnitudes that occur.
\<close>

definition toQuotation_double :: "real \<Rightarrow> quotation" where
  "toQuotation_double value =
     (let sign = (if value < 0 then - 1 else 1);
          absValue = \<bar>value\<bar>;
          units = \<lfloor>absValue\<rfloor>;
          nano = Math_round (to_double (to_double (absValue - of_int units) * 1000000000))
      in \<lparr>units = sign * units, nano = sign * nano\<rparr>)"

definition toNumber_double :: "quotation option \<Rightarrow> real option" where
  "toNumber_double value =
     (case value of
        Some q \<Rightarrow>
          Some (to_double (of_int (units q) + to_double (of_int (nano q) / 1000000000)))
      | None \<Rightarrow> None)"

subsection \<open>Instruments, wire messages and projected values\<close>

record instrument =
  instrument_id :: string \<comment> \<open>the field \<^verbatim>\<open>_id\<close>\<close>
  symbol :: string
  tinkoffFigi :: string

text \<open>An entry of a book message's \<^verbatim>\<open>bids\<close> or \<^verbatim>\<open>asks\<close>, as decoded from the wire.\<close>

record book_order =
  order_price :: "quotation option"
  order_quantity :: int

record orderbook =
  orderbook_figi :: string
  orderbook_bids :: "book_order list option"
  orderbook_asks :: "book_order list option"

text \<open>
  Modelled from the spec: \<^verbatim>\<open>TradeDirection\<close> of
  \<^verbatim>\<open>vendor/tinkoff/definitions/market-data.js\<close>, which is not among the sources. A
  trade has a side that is buy, sell or unknown; the code only compares a direction with
  the buy and the sell member.
\<close>

datatype trade_direction =
  TRADE_DIRECTION_UNSPECIFIED | TRADE_DIRECTION_BUY | TRADE_DIRECTION_SELL | UNRECOGNIZED

record trade =
  trade_figi :: string
  direction :: trade_direction
  trade_price :: "quotation option"
  trade_quantity :: int
  time :: int \<comment> \<open>the \<^verbatim>\<open>Date\<close> of the trade, as its epoch milliseconds (\<^verbatim>\<open>valueOf()\<close>)\<close>

record stream_data =
  data_orderbook :: "orderbook option"
  data_trade :: "trade option"

text \<open>The values the router writes into a consumer's field.\<close>

record level =
  price :: "real option"
  volume :: int

record print =
  orderId :: string
  side :: string
  time_iso :: string \<comment> \<open>the field \<^verbatim>\<open>time\<close>\<close>
  timestamp :: int
  print_symbol :: string \<comment> \<open>the field \<^verbatim>\<open>symbol\<close>\<close>
  print_price :: "real option" \<comment> \<open>the field \<^verbatim>\<open>price\<close>\<close>
  print_volume :: int \<comment> \<open>the field \<^verbatim>\<open>volume\<close>\<close>

datatype jsval =
    VInstrument instrument
  | VBook "level list" "level list" \<comment> \<open>\<^verbatim>\<open>{ bids, asks }\<close>\<close>
  | VPrint print

subsection \<open>Subscriptions, references and the trader\<close>

text \<open>
  Modelled from the spec: \<^verbatim>\<open>TRADER_DATUM\<close> of \<^verbatim>\<open>const.js\<close>, which is not among the
  sources. The data kinds are a closed set, of which this trader serves the order book
  and the trade prints.
\<close>

datatype trader_datum = ORDERBOOK | MARKET_PRINT | OTHER_DATUM string

record instrument_ref =
  refCount :: nat
  instrument :: instrument
  lastOrderbookData :: "orderbook option"

text \<open>
  The second argument of \<^verbatim>\<open>addFirstRef\<close> and \<^verbatim>\<open>removeLastRef\<close> is a map object that
  the code compares by identity with \<^verbatim>\<open>this.refs.orderbook\<close> and
  \<^verbatim>\<open>this.refs.allTrades\<close>; a handle names which map it is.
\<close>

datatype refs_handle = OrderbookRefs | AllTradesRefs | ForeignRefs

type_synonym wid = nat

datatype error = AbortError | TypeError | OtherError string

text \<open>
  Modelled from the spec: \<^verbatim>\<open>isAbortError\<close> of \<^verbatim>\<open>vendor/abort-controller-x.js\<close>, which
  is not among the sources; a transport error is distinguishable as cancelled or other.
\<close>

definition isAbortError :: "error \<Rightarrow> bool" where
  "isAbortError e = (e = AbortError)"

text \<open>
  Consumers (widgets) are objects compared by identity: a store maps a widget to its
  properties, among them \<^verbatim>\<open>instrument\<close> and the subscribed target fields. Abort
  controllers are objects too: \<open>aborted\<close> holds each controller's flag, and
  \<open>next_controller\<close> is the identity the next \<^verbatim>\<open>new AbortController()\<close> gets.
\<close>

record trader =
  reconnectTimeout :: "real option" \<comment> \<open>\<^verbatim>\<open>this.document.reconnectTimeout\<close>\<close>
  aborted :: "nat \<Rightarrow> bool"
  next_controller :: nat
  marketDataAbortController :: "nat option"
  figis :: "string \<rightharpoonup> instrument"
  subs_orderbook :: "(wid \<times> (string \<times> trader_datum) list) list"
  subs_allTrades :: "(wid \<times> (string \<times> trader_datum) list) list"
  refs_orderbook :: "(string \<times> instrument_ref) list"
  refs_allTrades :: "(string \<times> instrument_ref) list"
  refs_foreign :: "(string \<times> instrument_ref) list"
  widgets :: "wid \<Rightarrow> (string \<rightharpoonup> jsval)"

subsection \<open>The outgoing request and the observable trace\<close>

text \<open>
  Modelled from the spec: \<^verbatim>\<open>SubscriptionAction\<close> of
  \<^verbatim>\<open>vendor/tinkoff/definitions/market-data.js\<close>, which is not among the sources. The
  protocol subscribes and unsubscribes instrument sets; the code only subscribes.
\<close>

datatype subscription_action =
  SUBSCRIPTION_ACTION_SUBSCRIBE | SUBSCRIPTION_ACTION_UNSUBSCRIBE

record orderbook_instrument =
  instrumentId :: string
  depth :: nat

record 'i subscribe_request =
  subscriptionAction :: subscription_action
  instruments :: "'i list"

text \<open>A trades entry is \<^verbatim>\<open>{ instrumentId }\<close>: the identifier alone.\<close>

record request =
  subscribeOrderBookRequest :: "orderbook_instrument subscribe_request option"
  subscribeTradesRequest :: "string subscribe_request option"

text \<open>
  What one run of an operation does, in program order: the calls it makes on the
  transport, the messages it takes from the stream, the writes of the router, and the
  calls and timers that ask for a later resubscription. The public
  \<^verbatim>\<open>resubscribeToMarketData\<close> is the private one behind the \<^verbatim>\<open>debounce\<close> decorator of
  \<^verbatim>\<open>ppp-throttle.js\<close>, which is not among the sources: a call of it is an effect, and
  when and with which arguments the decorator runs the private method is left open.
\<close>

datatype effect =
    OpenStream request nat \<comment> \<open>\<^verbatim>\<open>marketDataServerSideStream(request, { signal })\<close>\<close>
  | GetOrderBook string nat \<comment> \<open>the awaited unary call, with instrument id and depth\<close>
  | GetLastTrades string int int
  | StreamData stream_data \<comment> \<open>one message taken by the \<^verbatim>\<open>for await\<close> loop\<close>
  | StoreSnapshot string orderbook \<comment> \<open>\<^verbatim>\<open>ref.lastOrderbookData = orderbook\<close>\<close>
  | WriteField wid string jsval \<comment> \<open>\<^verbatim>\<open>source[field] = ...\<close>\<close>
  | Resubscribe bool \<comment> \<open>a call of the debounced \<^verbatim>\<open>resubscribeToMarketData(reconnect)\<close>\<close>
  | SetTimeout real bool \<comment> \<open>a timer of the given delay that calls it\<close>
  | ConsoleError error

text \<open>
  The collaborators: the unary calls and the stream of the transport client, the clock,
  and the renderings of JavaScript's built-in conversions to a string.
\<close>

record env =
  getOrderBook :: "string \<Rightarrow> nat \<Rightarrow> error + orderbook"
  getLastTrades :: "string \<Rightarrow> int \<Rightarrow> int \<Rightarrow> error + trade list"
  now :: int
  stream :: "stream_data list" \<comment> \<open>the messages the opened stream delivers\<close>
  stream_end :: "error option" \<comment> \<open>how it ends: \<open>None\<close> when it completes\<close>
  num_str :: "real \<Rightarrow> string" \<comment> \<open>a number in a template string\<close>
  dir_str :: "trade_direction \<Rightarrow> string"
  iso_str :: "int \<Rightarrow> string" \<comment> \<open>\<^verbatim>\<open>Date.prototype.toISOString\<close>\<close>

section \<open>The operations\<close>

subsection \<open>The message router\<close>

text \<open>\<^verbatim>\<open>source.instrument?._id\<close>: undefined unless the property holds an instrument.\<close>

definition source_instrument_id :: "trader \<Rightarrow> wid \<Rightarrow> string option" where
  "source_instrument_id s source =
     (case widgets s source ''instrument'' of
        Some (VInstrument j) \<Rightarrow> Some (instrument_id j)
      | _ \<Rightarrow> None)"

definition write_field :: "wid \<Rightarrow> string \<Rightarrow> jsval \<Rightarrow> trader \<Rightarrow> trader" where
  "write_field source field v s =
     s\<lparr>widgets := (widgets s)(source := (widgets s source)(field \<mapsto> v))\<rparr>"

text \<open>\<^verbatim>\<open>orderbook?.bids?.map?.(...) ?? []\<close>, and the same for the asks.\<close>

definition levels :: "book_order list option \<Rightarrow> level list" where
  "levels xs =
     (case xs of
        None \<Rightarrow> []
      | Some bs \<Rightarrow>
          map (\<lambda>b. \<lparr>price = toNumber (order_price b), volume = order_quantity b\<rparr>) bs)"

definition book_value :: "orderbook \<Rightarrow> jsval" where
  "book_value ob = VBook (levels (orderbook_bids ob)) (levels (orderbook_asks ob))"

text \<open>The inner loop of \<^verbatim>\<open>onOrderbookMessage\<close> over the entries of one consumer.\<close>

fun write_orderbook_fields ::
  "orderbook \<Rightarrow> wid \<Rightarrow> (string \<times> trader_datum) list \<Rightarrow> trader \<Rightarrow> trader \<times> effect list"
where
  "write_orderbook_fields ob source [] s = (s, [])"
| "write_orderbook_fields ob source ((field, datum) # entries) s =
     (if datum = ORDERBOOK then
        (let (s', tr) =
           write_orderbook_fields ob source entries (write_field source field (book_value ob) s)
         in (s', WriteField source field (book_value ob) # tr))
      else write_orderbook_fields ob source entries s)"

text \<open>The body of its outer loop, for one entry of \<^verbatim>\<open>this.subs.orderbook\<close>.\<close>

definition orderbook_to_source ::
  "orderbook \<Rightarrow> instrument \<Rightarrow> wid \<times> (string \<times> trader_datum) list \<Rightarrow> trader
     \<Rightarrow> trader \<times> effect list"
where
  "orderbook_to_source ob i e s =
     (case source_instrument_id s (fst e) of
        None \<Rightarrow> (s, [])
      | Some k \<Rightarrow>
          if k = instrument_id i then
            (case map_of (refs_orderbook s) k of
               None \<Rightarrow> (s, [])
             | Some ref \<Rightarrow>
                 (let s1 = s\<lparr>refs_orderbook :=
                            AList.update k (ref\<lparr>lastOrderbookData := Some ob\<rparr>) (refs_orderbook s)\<rparr>;
                      (s2, tr) = write_orderbook_fields ob (fst e) (snd e) s1
                  in (s2, StoreSnapshot k ob # tr)))
          else (s, []))"

fun orderbook_to_sources ::
  "orderbook \<Rightarrow> instrument \<Rightarrow> (wid \<times> (string \<times> trader_datum) list) list \<Rightarrow> trader
     \<Rightarrow> trader \<times> effect list"
where
  "orderbook_to_sources ob i [] s = (s, [])"
| "orderbook_to_sources ob i (e # es) s =
     (let (s1, tr1) = orderbook_to_source ob i e s;
          (s2, tr2) = orderbook_to_sources ob i es s1
      in (s2, tr1 @ tr2))"

definition onOrderbookMessage ::
  "trader \<Rightarrow> orderbook option \<Rightarrow> instrument option \<Rightarrow> trader \<times> effect list"
where
  "onOrderbookMessage s msg instr =
     (case msg of
        None \<Rightarrow> (s, [])
      | Some ob \<Rightarrow>
          (case instr of
             None \<Rightarrow> (s, [])
           | Some i \<Rightarrow> orderbook_to_sources ob i (subs_orderbook s) s))"

text \<open>
  The projection of a trade, which \<^verbatim>\<open>allTrades\<close> and \<^verbatim>\<open>onTradeMessage\<close> both
  write out in full.
\<close>

definition price_str :: "env \<Rightarrow> real option \<Rightarrow> string" where
  "price_str E p = (case p of None \<Rightarrow> ''undefined'' | Some x \<Rightarrow> num_str E x)"

definition trade_print :: "env \<Rightarrow> instrument \<Rightarrow> trade \<Rightarrow> print" where
  "trade_print E i t =
     (let ts = time t;
          p = toNumber (trade_price t)
      in \<lparr>orderId =
             symbol i @ ''|'' @ dir_str E (direction t) @ ''|'' @ price_str E p @ ''|''
               @ num_str E (of_int (trade_quantity t)) @ ''|'' @ num_str E (of_int ts),
           side =
             (if direction t = TRADE_DIRECTION_BUY then ''buy''
              else if direction t = TRADE_DIRECTION_SELL then ''sell''
              else []),
           time_iso = iso_str E (time t),
           timestamp = ts,
           print_symbol = symbol i,
           print_price = p,
           print_volume = trade_quantity t\<rparr>)"

fun write_trade_fields ::
  "env \<Rightarrow> trade \<Rightarrow> instrument \<Rightarrow> wid \<Rightarrow> (string \<times> trader_datum) list \<Rightarrow> trader
     \<Rightarrow> trader \<times> effect list"
where
  "write_trade_fields E t i source [] s = (s, [])"
| "write_trade_fields E t i source ((field, datum) # entries) s =
     (if datum = MARKET_PRINT then
        (let (s', tr) =
           write_trade_fields E t i source entries
             (write_field source field (VPrint (trade_print E i t)) s)
         in (s', WriteField source field (VPrint (trade_print E i t)) # tr))
      else write_trade_fields E t i source entries s)"

fun trade_to_sources ::
  "env \<Rightarrow> trade \<Rightarrow> instrument \<Rightarrow> (wid \<times> (string \<times> trader_datum) list) list \<Rightarrow> trader
     \<Rightarrow> trader \<times> effect list"
where
  "trade_to_sources E t i [] s = (s, [])"
| "trade_to_sources E t i (e # es) s =
     (let (s1, tr1) =
            (if source_instrument_id s (fst e) = Some (instrument_id i)
             then write_trade_fields E t i (fst e) (snd e) s
             else (s, []));
          (s2, tr2) = trade_to_sources E t i es s1
      in (s2, tr1 @ tr2))"

definition onTradeMessage ::
  "env \<Rightarrow> trader \<Rightarrow> trade option \<Rightarrow> instrument option \<Rightarrow> trader \<times> effect list"
where
  "onTradeMessage E s msg instr =
     (case msg of
        None \<Rightarrow> (s, [])
      | Some t \<Rightarrow>
          (case instr of
             None \<Rightarrow> (s, [])
           | Some i \<Rightarrow> trade_to_sources E t i (subs_allTrades s) s))"

text \<open>
  The body of the \<^verbatim>\<open>for await\<close> loop of \<^verbatim>\<open>#resubscribeToMarketData\<close>: the instrument
  is looked up in \<^verbatim>\<open>#figis\<close> by the message's own figi.
\<close>

definition onStreamData :: "env \<Rightarrow> trader \<Rightarrow> stream_data \<Rightarrow> trader \<times> effect list" where
  "onStreamData E s data =
     (case data_orderbook data of
        Some ob \<Rightarrow> onOrderbookMessage s (Some ob) (figis s (orderbook_figi ob))
      | None \<Rightarrow>
          (case data_trade data of
             Some t \<Rightarrow> onTradeMessage E s (Some t) (figis s (trade_figi t))
           | None \<Rightarrow> (s, [])))"

subsection \<open>The subscription registry\<close>

definition refs_of :: "refs_handle \<Rightarrow> trader \<Rightarrow> (string \<times> instrument_ref) list" where
  "refs_of refs s =
     (case refs of
        OrderbookRefs \<Rightarrow> refs_orderbook s
      | AllTradesRefs \<Rightarrow> refs_allTrades s
      | ForeignRefs \<Rightarrow> refs_foreign s)"

text \<open>\<^verbatim>\<open>refs.set(key, ref)\<close> on the map the handle names.\<close>

definition refs_set :: "refs_handle \<Rightarrow> string \<Rightarrow> instrument_ref \<Rightarrow> trader \<Rightarrow> trader" where
  "refs_set refs k r s =
     (case refs of
        OrderbookRefs \<Rightarrow> s\<lparr>refs_orderbook := AList.update k r (refs_orderbook s)\<rparr>
      | AllTradesRefs \<Rightarrow> s\<lparr>refs_allTrades := AList.update k r (refs_allTrades s)\<rparr>
      | ForeignRefs \<Rightarrow> s\<lparr>refs_foreign := AList.update k r (refs_foreign s)\<rparr>)"

text \<open>\<^verbatim>\<open>this.#marketDataAbortController?.abort?.()\<close>\<close>

definition abort_marketData :: "trader \<Rightarrow> trader" where
  "abort_marketData s =
     (case marketDataAbortController s of
        None \<Rightarrow> s
      | Some c \<Rightarrow> s\<lparr>aborted := (aborted s)(c := True)\<rparr>)"

text \<open>
  A streaming session is live while the controller the trader holds has not been
  aborted.
\<close>

definition session_live :: "trader \<Rightarrow> bool" where
  "session_live s =
     (case marketDataAbortController s of
        None \<Rightarrow> False
      | Some c \<Rightarrow> \<not> aborted s c)"

text \<open>
  \<^verbatim>\<open>addFirstRef(instrument, refs)\<close>. The result is the state, the trace, and the error
  the returned promise is rejected with, if any: reading \<^verbatim>\<open>instrument._id\<close> of a
  missing instrument is a \<^verbatim>\<open>TypeError\<close>, and a failed unary call rejects after the
  reference and the figi entry have been stored.
\<close>

definition addFirstRef ::
  "env \<Rightarrow> trader \<Rightarrow> instrument option \<Rightarrow> refs_handle \<Rightarrow> trader \<times> effect list \<times> error option"
where
  "addFirstRef E s instr refs =
     (case instr of
        None \<Rightarrow> (s, [], Some TypeError)
      | Some i \<Rightarrow>
          (let s1 = refs_set refs (instrument_id i)
                      \<lparr>refCount = 1, instrument = i, lastOrderbookData = None\<rparr> s;
               s2 = s1\<lparr>figis := (figis s1)(tinkoffFigi i \<mapsto> i)\<rparr>
           in if refs = OrderbookRefs then
                (case getOrderBook E (tinkoffFigi i) 50 of
                   Inl e \<Rightarrow> (s2, [GetOrderBook (tinkoffFigi i) 50], Some e)
                 | Inr ob \<Rightarrow>
                     (let (s3, tr) = onOrderbookMessage s2 (Some ob) (Some i)
                      in (s3, GetOrderBook (tinkoffFigi i) 50 # tr @ [Resubscribe False], None)))
              else if refs = AllTradesRefs then (s2, [Resubscribe False], None)
              else (s2, [], None)))"

text \<open>
  \<^verbatim>\<open>removeLastRef(instrument, refs)\<close>. With a foreign map nothing reads the instrument,
  so a missing one raises nothing.
\<close>

definition removeLastRef ::
  "trader \<Rightarrow> instrument option \<Rightarrow> refs_handle \<Rightarrow> trader \<times> error option"
where
  "removeLastRef s instr refs =
     (case (if refs = ForeignRefs then Inr s
            else (case instr of
                    None \<Rightarrow> Inl TypeError
                  | Some i \<Rightarrow>
                      if refs = OrderbookRefs
                      then Inr (s\<lparr>refs_orderbook := AList.delete (instrument_id i) (refs_orderbook s)\<rparr>)
                      else Inr (s\<lparr>refs_allTrades := AList.delete (instrument_id i) (refs_allTrades s)\<rparr>)))
      of
        Inl e \<Rightarrow> (s, Some e)
      | Inr s1 \<Rightarrow>
          if refs_orderbook s1 = [] \<and> refs_allTrades s1 = []
          then (abort_marketData s1, None)
          else (s1, None))"

subsection \<open>The stream controller\<close>

text \<open>The request that \<^verbatim>\<open>#resubscribeToMarketData\<close> builds from the two ref maps.\<close>

definition marketDataServerSideStreamRequest :: "trader \<Rightarrow> request" where
  "marketDataServerSideStreamRequest s =
     \<lparr>subscribeOrderBookRequest =
        (if refs_orderbook s = [] then None
         else Some \<lparr>subscriptionAction = SUBSCRIPTION_ACTION_SUBSCRIBE,
                    instruments =
                      map (\<lambda>r. \<lparr>instrumentId = tinkoffFigi (instrument r), depth = 50\<rparr>)
                        (map snd (refs_orderbook s))\<rparr>),
      subscribeTradesRequest =
        (if refs_allTrades s = [] then None
         else Some \<lparr>subscriptionAction = SUBSCRIPTION_ACTION_SUBSCRIBE,
                    instruments =
                      map (\<lambda>r. tinkoffFigi (instrument r)) (map snd (refs_allTrades s))\<rparr>)\<rparr>"

text \<open>\<^verbatim>\<open>Math.max(this.document.reconnectTimeout ?? 1000, 1000)\<close>\<close>

definition reconnect_delay :: "trader \<Rightarrow> real" where
  "reconnect_delay s = max (case reconnectTimeout s of None \<Rightarrow> 1000 | Some t \<Rightarrow> t) 1000"

text \<open>The \<^verbatim>\<open>catch\<close> clause.\<close>

definition catch_clause :: "trader \<Rightarrow> error \<Rightarrow> effect list" where
  "catch_clause s e =
     (if \<not> isAbortError e then [ConsoleError e, SetTimeout (reconnect_delay s) True] else [])"

text \<open>
  The snapshots of a reconnect. The code starts one unary call per order-book
  reference and awaits them all; here they are answered in the order of the map. A call
  that fails rejects the whole \<^verbatim>\<open>Promise.all\<close> with the first failure, while the
  answers of the others are still routed.
\<close>

fun refetch_snapshots ::
  "env \<Rightarrow> instrument list \<Rightarrow> trader \<Rightarrow> trader \<times> effect list \<times> error option"
where
  "refetch_snapshots E [] s = (s, [], None)"
| "refetch_snapshots E (i # is) s =
     (case getOrderBook E (tinkoffFigi i) 50 of
        Inl e \<Rightarrow>
          (let (s2, tr2, r) = refetch_snapshots E is s
           in (s2, GetOrderBook (tinkoffFigi i) 50 # tr2, Some e))
      | Inr ob \<Rightarrow>
          (let (s1, tr1) = onOrderbookMessage s (Some ob) (Some i);
               (s2, tr2, r) = refetch_snapshots E is s1
           in (s2, GetOrderBook (tinkoffFigi i) 50 # tr1 @ tr2, r)))"

text \<open>The \<^verbatim>\<open>for await\<close> loop over the messages of the stream.\<close>

fun consume :: "env \<Rightarrow> stream_data list \<Rightarrow> trader \<Rightarrow> trader \<times> effect list" where
  "consume E [] s = (s, [])"
| "consume E (d # ds) s =
     (let (s1, tr1) = onStreamData E s d;
          (s2, tr2) = consume E ds s1
      in (s2, StreamData d # tr1 @ tr2))"

text \<open>
  The \<^verbatim>\<open>try\<close> block up to the end of the loop: the state, the trace, and the error
  thrown in it, if any.
\<close>

definition try_block :: "env \<Rightarrow> trader \<Rightarrow> bool \<Rightarrow> trader \<times> effect list \<times> error option" where
  "try_block E s reconnect =
     (let (s1, tr1, r) =
            (if reconnect
             then refetch_snapshots E (map (\<lambda>r. instrument r) (map snd (refs_orderbook s))) s
             else (s, [], None))
      in case r of
           Some e \<Rightarrow> (s1, tr1, Some e)
         | None \<Rightarrow>
             (let (s2, tr2) = consume E (stream E) s1
              in (s2, tr1 @ tr2, stream_end E)))"

text \<open>
  Superseding the session: the controller held so far is aborted and a new one takes its
  place, whose signal the new stream is given.
\<close>

definition open_session :: "trader \<Rightarrow> trader \<times> nat" where
  "open_session s =
     (let s1 = abort_marketData s;
          c = next_controller s1
      in (s1\<lparr>aborted := (aborted s1)(c := False),
             next_controller := Suc c,
             marketDataAbortController := Some c\<rparr>, c))"

text \<open>
  \<^verbatim>\<open>#resubscribeToMarketData(reconnect)\<close>, one run of it from its call to its return,
  against the answers and the stream that \<open>E\<close> holds.
\<close>

definition resubscribeToMarketData :: "env \<Rightarrow> trader \<Rightarrow> bool \<Rightarrow> trader \<times> effect list" where
  "resubscribeToMarketData E s reconnect =
     (if refs_orderbook s = [] \<and> refs_allTrades s = [] then (s, [])
      else
        (let req = marketDataServerSideStreamRequest s;
             (s2, c) = open_session s;
             (s3, tr, r) = try_block E s2 reconnect
         in (s3, OpenStream req c # tr @
                   (case r of None \<Rightarrow> [Resubscribe True] | Some e \<Rightarrow> catch_clause s3 e))))"

text \<open>How the session of such a run ends: the error its \<^verbatim>\<open>try\<close> block throws, if any.\<close>

definition session_error :: "env \<Rightarrow> trader \<Rightarrow> bool \<Rightarrow> error option" where
  "session_error E s reconnect = snd (snd (try_block E (fst (open_session s)) reconnect))"

subsection \<open>The trade history\<close>

text \<open>\<^verbatim>\<open>Array.prototype.slice(start)\<close> for an integer \<^verbatim>\<open>start\<close>.\<close>

definition slice :: "'a list \<Rightarrow> int \<Rightarrow> 'a list" where
  "slice xs start =
     (let len = int (length xs);
          k = (if start < 0 then max (len + start) 0 else min start len)
      in drop (nat k) xs)"

text \<open>
  \<^verbatim>\<open>allTrades({ instrument, depth })\<close>: the trace and what the promise settles with. The
  window is one hour to each side of the clock.
\<close>

definition allTrades :: "env \<Rightarrow> instrument option \<Rightarrow> int \<Rightarrow> effect list \<times> (error + print list)" where
  "allTrades E instr n =
     (case instr of
        None \<Rightarrow> ([], Inr [])
      | Some i \<Rightarrow>
          (let to = now E + 3600000;
               from = now E - 3600000
           in ([GetLastTrades (tinkoffFigi i) from to],
               (case getLastTrades E (tinkoffFigi i) from to of
                  Inl e \<Rightarrow> Inl e
                | Inr trades \<Rightarrow> Inr (map (trade_print E i) (rev (slice trades (- n))))))))"

section \<open>Predicates of the statements\<close>

text \<open>A reference without its cached snapshot: the key, the count and the instrument.\<close>

definition ref_core :: "string \<times> instrument_ref \<Rightarrow> string \<times> nat \<times> instrument" where
  "ref_core e = (fst e, refCount (snd e), instrument (snd e))"

text \<open>The order-book reference of key \<open>k\<close> exists and its cached snapshot is \<open>ob\<close>.\<close>

definition cached :: "trader \<Rightarrow> string \<Rightarrow> orderbook \<Rightarrow> bool" where
  "cached s k ob =
     (case map_of (refs_orderbook s) k of
        None \<Rightarrow> False
      | Some r \<Rightarrow> lastOrderbookData r = Some ob)"

text \<open>
  In a trace, every write of a consumer's field comes after a store of the message \<open>ob\<close>
  as the cached snapshot of key \<open>k\<close>.
\<close>

definition stored_before_written :: "string \<Rightarrow> orderbook \<Rightarrow> effect list \<Rightarrow> bool" where
  "stored_before_written k ob tr =
     (\<forall>pre w f v post. tr = pre @ WriteField w f v # post \<longrightarrow> StoreSnapshot k ob \<in> set pre)"

text \<open>The effects the router itself has: a cached snapshot and a written field.\<close>

definition router_effect :: "effect \<Rightarrow> bool" where
  "router_effect e =
     (case e of StoreSnapshot k ob \<Rightarrow> True | WriteField w f v \<Rightarrow> True | _ \<Rightarrow> False)"

text \<open>
  What routing may change: the consumers' properties and the cached snapshots, the
  references otherwise staying as they are.
\<close>

definition router_step :: "trader \<Rightarrow> trader \<Rightarrow> bool" where
  "router_step s s' =
     (s' = s\<lparr>refs_orderbook := refs_orderbook s', widgets := widgets s'\<rparr>
      \<and> map ref_core (refs_orderbook s') = map ref_core (refs_orderbook s))"

text \<open>A message taken from the stream; a request for a later resubscription.\<close>

definition stream_effect :: "effect \<Rightarrow> bool" where
  "stream_effect e = (case e of StreamData d \<Rightarrow> True | _ \<Rightarrow> False)"

definition reconnect_effect :: "effect \<Rightarrow> bool" where
  "reconnect_effect e = (case e of Resubscribe b \<Rightarrow> True | SetTimeout d b \<Rightarrow> True | _ \<Rightarrow> False)"

text \<open>With no reference of either kind there is no live session.\<close>

definition idle_inv :: "trader \<Rightarrow> bool" where
  "idle_inv s = (refs_orderbook s = [] \<and> refs_allTrades s = [] \<longrightarrow> \<not> session_live s)"

text \<open>The \<open>n\<close> most recent entries of a list ordered oldest first, in the words of the spec.\<close>

definition most_recent :: "nat \<Rightarrow> 'a list \<Rightarrow> 'a list" where
  "most_recent n xs = drop (length xs - n) xs"

text \<open>
  The Quotation invariant, in the words of the spec: units and nano never have opposite
  signs, and the magnitude of nano is below one unit.
\<close>

definition quotation_inv :: "quotation \<Rightarrow> bool" where
  "quotation_inv q = (0 \<le> units q * nano q \<and> \<bar>nano q\<bar> < 1000000000)"


section \<open>Example states\<close>

definition SBER :: instrument where
  "SBER = \<lparr>instrument_id = ''sber'', symbol = ''SBER'', tinkoffFigi = ''BBG004730N88''\<rparr>"

definition GAZP :: instrument where
  "GAZP = \<lparr>instrument_id = ''gazp'', symbol = ''GAZP'', tinkoffFigi = ''BBG004730RP0''\<rparr>"

text \<open>A trader as its constructor leaves it, with the default reconnect delay.\<close>

definition trader0 :: trader where
  "trader0 =
     \<lparr>reconnectTimeout = None, aborted = (\<lambda>c. False), next_controller = 0,
      marketDataAbortController = None, figis = Map.empty,
      subs_orderbook = [], subs_allTrades = [],
      refs_orderbook = [], refs_allTrades = [], refs_foreign = [],
      widgets = (\<lambda>w. Map.empty)\<rparr>"

text \<open>
  Widget 0 shows SBER and widget 1 shows GAZP; each has subscribed its field
  \<^verbatim>\<open>book\<close> to the order book, and both instruments are referenced once.
\<close>

definition trader1 :: trader where
  "trader1 =
     trader0\<lparr>
       figis := [tinkoffFigi SBER \<mapsto> SBER, tinkoffFigi GAZP \<mapsto> GAZP],
       subs_orderbook := [(0, [(''book'', ORDERBOOK)]), (1, [(''book'', ORDERBOOK)])],
       refs_orderbook :=
         [(instrument_id SBER, \<lparr>refCount = 1, instrument = SBER, lastOrderbookData = None\<rparr>),
          (instrument_id GAZP, \<lparr>refCount = 1, instrument = GAZP, lastOrderbookData = None\<rparr>)],
       widgets := (\<lambda>w. if w = 0 then [''instrument'' \<mapsto> VInstrument SBER]
                        else if w = 1 then [''instrument'' \<mapsto> VInstrument GAZP]
                        else Map.empty)\<rparr>"

text \<open>A live trades session on SBER alone, under the first controller.\<close>

definition trader2 :: trader where
  "trader2 =
     trader0\<lparr>
       next_controller := 1,
       marketDataAbortController := Some 0,
       figis := [tinkoffFigi SBER \<mapsto> SBER],
       refs_allTrades :=
         [(instrument_id SBER, \<lparr>refCount = 1, instrument = SBER, lastOrderbookData = None\<rparr>)]\<rparr>"

text \<open>The two widgets of \<open>trader1\<close> have subscribed, and no reference exists yet.\<close>

definition trader3 :: trader where
  "trader3 = trader1\<lparr>refs_orderbook := [], figis := Map.empty\<rparr>"

text \<open>The references of \<open>trader1\<close>, with no consumer subscribed.\<close>

definition trader4 :: trader where
  "trader4 = trader1\<lparr>subs_orderbook := []\<rparr>"

definition book1 :: orderbook where
  "book1 =
     \<lparr>orderbook_figi = ''BBG004730N88'',
      orderbook_bids = Some [\<lparr>order_price = Some \<lparr>units = 250, nano = 500000000\<rparr>,
                              order_quantity = 10\<rparr>],
      orderbook_asks = Some []\<rparr>"

definition trade1 :: trade where
  "trade1 = \<lparr>trade_figi = ''BBG004730N88'', direction = TRADE_DIRECTION_BUY,
             trade_price = Some \<lparr>units = 250, nano = 0\<rparr>, trade_quantity = 1, time = 1000\<rparr>"

definition trade2 :: trade where
  "trade2 = \<lparr>trade_figi = ''BBG004730N88'', direction = TRADE_DIRECTION_SELL,
             trade_price = Some \<lparr>units = 251, nano = 0\<rparr>, trade_quantity = 2, time = 2000\<rparr>"

text \<open>
  A transport whose unary calls succeed and whose stream fails at once with a network
  error.
\<close>

definition env1 :: env where
  "env1 =
     \<lparr>getOrderBook = (\<lambda>f d. Inr book1),
      getLastTrades = (\<lambda>f a b. Inr [trade1, trade2]),
      now = 0, stream = [], stream_end = Some (OtherError ''network''),
      num_str = (\<lambda>x. ''n''), dir_str = (\<lambda>d. ''d''), iso_str = (\<lambda>t. ''t'')\<rparr>"


section \<open>Properties of the router\<close>

lemma write_field_frame:
  "write_field w f v s = s\<lparr>widgets := widgets (write_field w f v s)\<rparr>"
  by (simp add: write_field_def)

lemma write_orderbook_fields_frame:
  "write_orderbook_fields ob w es s = (s', tr) \<Longrightarrow> s' = s\<lparr>widgets := widgets s'\<rparr>"
proof (induction es arbitrary: s s' tr)
  case Nil
  then show ?case by simp
next
  case (Cons e es)
  obtain f d where e: "e = (f, d)" by (cases e)
  show ?case
  proof (cases "d = ORDERBOOK")
    case True
    obtain s1 t1 where r: "write_orderbook_fields ob w es (write_field w f (book_value ob) s) = (s1, t1)"
      by (cases "write_orderbook_fields ob w es (write_field w f (book_value ob) s)")
    with Cons.prems e True have "s' = s1" by simp
    moreover from Cons.IH[OF r] have "s1 = (write_field w f (book_value ob) s)\<lparr>widgets := widgets s1\<rparr>" .
    ultimately show ?thesis by (simp add: write_field_def)
  next
    case False
    with Cons.prems e have "write_orderbook_fields ob w es s = (s', tr)" by simp
    then show ?thesis by (rule Cons.IH)
  qed
qed

lemma write_orderbook_fields_widgets:
  "write_orderbook_fields ob w es s = (s', tr) \<Longrightarrow>
   widgets s' w' f = (if w' = w \<and> (f, ORDERBOOK) \<in> set es then Some (book_value ob) else widgets s w' f)"
proof (induction es arbitrary: s s' tr)
  case Nil
  then show ?case by simp
next
  case (Cons e es)
  obtain g d where e: "e = (g, d)" by (cases e)
  show ?case
  proof (cases "d = ORDERBOOK")
    case True
    obtain s1 t1 where r: "write_orderbook_fields ob w es (write_field w g (book_value ob) s) = (s1, t1)"
      by (cases "write_orderbook_fields ob w es (write_field w g (book_value ob) s)")
    with Cons.prems e True have "s' = s1" by simp
    with Cons.IH[OF r] e True show ?thesis by (auto simp: write_field_def)
  next
    case False
    with Cons.prems e have "write_orderbook_fields ob w es s = (s', tr)" by simp
    from Cons.IH[OF this] e False show ?thesis by auto
  qed
qed

lemma write_orderbook_fields_log:
  "write_orderbook_fields ob w es s = (s', tr) \<Longrightarrow>
   tr = map (\<lambda>(f, d). WriteField w f (book_value ob)) (filter (\<lambda>(f, d). d = ORDERBOOK) es)"
proof (induction es arbitrary: s s' tr)
  case Nil
  then show ?case by simp
next
  case (Cons e es)
  obtain g d where e: "e = (g, d)" by (cases e)
  show ?case
  proof (cases "d = ORDERBOOK")
    case True
    obtain s1 t1 where r: "write_orderbook_fields ob w es (write_field w g (book_value ob) s) = (s1, t1)"
      by (cases "write_orderbook_fields ob w es (write_field w g (book_value ob) s)")
    with Cons.prems e True have "tr = WriteField w g (book_value ob) # t1" by simp
    with Cons.IH[OF r] e True show ?thesis by simp
  next
    case False
    with Cons.prems e have "write_orderbook_fields ob w es s = (s', tr)" by simp
    from Cons.IH[OF this] e False show ?thesis by simp
  qed
qed

lemma update_cache_core:
  "map_of xs k = Some r \<Longrightarrow>
   map ref_core (AList.update k (r\<lparr>lastOrderbookData := x\<rparr>) xs) = map ref_core xs"
  by (induction xs) (auto simp: ref_core_def)

lemma ref_core_map_of:
  "map ref_core xs = map ref_core ys \<Longrightarrow>
   (map_of xs k = None \<longleftrightarrow> map_of ys k = None)"
proof -
  assume "map ref_core xs = map ref_core ys"
  then have "map fst (map ref_core xs) = map fst (map ref_core ys)" by simp
  then have "map fst xs = map fst ys" by (simp add: ref_core_def comp_def)
  then show ?thesis by (metis map_of_eq_None_iff set_map)
qed

lemma write_orderbook_fields_eq:
  "write_orderbook_fields ob w es s =
     (s\<lparr>widgets := (widgets s)
          (w := (\<lambda>f. if (f, ORDERBOOK) \<in> set es then Some (book_value ob) else widgets s w f))\<rparr>,
      map (\<lambda>(f, d). WriteField w f (book_value ob)) (filter (\<lambda>(f, d). d = ORDERBOOK) es))"
proof -
  obtain s' tr where r: "write_orderbook_fields ob w es s = (s', tr)"
    by (cases "write_orderbook_fields ob w es s")
  have "widgets s' =
      (widgets s)(w := (\<lambda>f. if (f, ORDERBOOK) \<in> set es then Some (book_value ob) else widgets s w f))"
    by (rule ext, rule ext) (simp add: write_orderbook_fields_widgets[OF r])
  with write_orderbook_fields_frame[OF r] write_orderbook_fields_log[OF r] r
  show ?thesis by simp
qed

lemma orderbook_to_source_eq:
  "orderbook_to_source ob i e s =
     (if source_instrument_id s (fst e) = Some (instrument_id i)
         \<and> map_of (refs_orderbook s) (instrument_id i) \<noteq> None
      then
        (s\<lparr>refs_orderbook :=
             AList.update (instrument_id i)
               ((the (map_of (refs_orderbook s) (instrument_id i)))\<lparr>lastOrderbookData := Some ob\<rparr>)
               (refs_orderbook s),
           widgets := (widgets s)
             (fst e := (\<lambda>f. if (f, ORDERBOOK) \<in> set (snd e) then Some (book_value ob)
                             else widgets s (fst e) f))\<rparr>,
         StoreSnapshot (instrument_id i) ob #
           map (\<lambda>(f, d). WriteField (fst e) f (book_value ob))
             (filter (\<lambda>(f, d). d = ORDERBOOK) (snd e)))
      else (s, []))"
  by (auto simp: orderbook_to_source_def write_orderbook_fields_eq Let_def split: option.splits cong: if_cong)

lemma orderbook_to_source_frame:
  "orderbook_to_source ob i e s = (s', tr) \<Longrightarrow>
   s' = s\<lparr>refs_orderbook := refs_orderbook s', widgets := widgets s'\<rparr>"
  by (auto simp: orderbook_to_source_eq split: if_splits)

lemma orderbook_to_source_core:
  "orderbook_to_source ob i e s = (s', tr) \<Longrightarrow>
   map ref_core (refs_orderbook s') = map ref_core (refs_orderbook s)"
  by (auto simp: orderbook_to_source_eq update_cache_core split: if_splits)

lemma orderbook_to_source_binding:
  "orderbook_to_source ob i e s = (s', tr) \<Longrightarrow>
   source_instrument_id s' w = Some k \<Longrightarrow> source_instrument_id s w = Some k"
  by (auto simp: orderbook_to_source_eq source_instrument_id_def book_value_def
      split: if_splits option.splits jsval.splits)

lemma orderbook_to_source_written:
  "orderbook_to_source ob i e s = (s', tr) \<Longrightarrow> widgets s' w f \<noteq> widgets s w f \<Longrightarrow>
   w = fst e \<and> source_instrument_id s w = Some (instrument_id i)
     \<and> (f, ORDERBOOK) \<in> set (snd e) \<and> map_of (refs_orderbook s) (instrument_id i) \<noteq> None"
  by (auto simp: orderbook_to_source_eq split: if_splits)

lemma orderbook_to_sources_Cons:
  "orderbook_to_sources ob i (e # es) s = (s', tr) \<Longrightarrow>
   \<exists>s1 t1 t2. orderbook_to_source ob i e s = (s1, t1)
      \<and> orderbook_to_sources ob i es s1 = (s', t2) \<and> tr = t1 @ t2"
  by (auto split: prod.splits)

lemma orderbook_to_sources_frame:
  "orderbook_to_sources ob i es s = (s', tr) \<Longrightarrow>
   s' = s\<lparr>refs_orderbook := refs_orderbook s', widgets := widgets s'\<rparr>"
proof (induction es arbitrary: s s' tr)
  case Nil
  then show ?case by simp
next
  case (Cons e es)
  from orderbook_to_sources_Cons[OF Cons.prems] obtain s1 t1 t2 where
    a: "orderbook_to_source ob i e s = (s1, t1)" and b: "orderbook_to_sources ob i es s1 = (s', t2)"
    by blast
  from orderbook_to_source_frame[OF a] Cons.IH[OF b] show ?case
    by (metis (no_types, lifting) trader.surjective trader.update_convs(8) trader.update_convs(11))
qed

lemma orderbook_to_sources_core:
  "orderbook_to_sources ob i es s = (s', tr) \<Longrightarrow>
   map ref_core (refs_orderbook s') = map ref_core (refs_orderbook s)"
proof (induction es arbitrary: s s' tr)
  case Nil
  then show ?case by simp
next
  case (Cons e es)
  from orderbook_to_sources_Cons[OF Cons.prems] obtain s1 t1 t2 where
    a: "orderbook_to_source ob i e s = (s1, t1)" and b: "orderbook_to_sources ob i es s1 = (s', t2)"
    by blast
  from orderbook_to_source_core[OF a] Cons.IH[OF b] show ?case by simp
qed

lemma orderbook_to_sources_binding:
  "orderbook_to_sources ob i es s = (s', tr) \<Longrightarrow>
   source_instrument_id s' w = Some k \<Longrightarrow> source_instrument_id s w = Some k"
proof (induction es arbitrary: s s' tr)
  case Nil
  then show ?case by simp
next
  case (Cons e es)
  from orderbook_to_sources_Cons[OF Cons.prems(1)] obtain s1 t1 t2 where
    a: "orderbook_to_source ob i e s = (s1, t1)" and b: "orderbook_to_sources ob i es s1 = (s', t2)"
    by blast
  from Cons.IH[OF b Cons.prems(2)] have "source_instrument_id s1 w = Some k" .
  then show ?case by (rule orderbook_to_source_binding[OF a])
qed

lemma orderbook_to_sources_written:
  "orderbook_to_sources ob i es s = (s', tr) \<Longrightarrow> widgets s' w f \<noteq> widgets s w f \<Longrightarrow>
   \<exists>fs. (w, fs) \<in> set es \<and> source_instrument_id s w = Some (instrument_id i)
     \<and> (f, ORDERBOOK) \<in> set fs \<and> map_of (refs_orderbook s) (instrument_id i) \<noteq> None"
proof (induction es arbitrary: s s' tr)
  case Nil
  then show ?case by simp
next
  case (Cons e es)
  from orderbook_to_sources_Cons[OF Cons.prems(1)] obtain s1 t1 t2 where
    a: "orderbook_to_source ob i e s = (s1, t1)" and b: "orderbook_to_sources ob i es s1 = (s', t2)"
    by blast
  show ?case
  proof (cases "widgets s' w f = widgets s1 w f")
    case True
    with Cons.prems(2) have "widgets s1 w f \<noteq> widgets s w f" by simp
    from orderbook_to_source_written[OF a this] show ?thesis
      by (intro exI[of _ "snd e"]) auto
  next
    case False
    from Cons.IH[OF b False] obtain fs where
      fs: "(w, fs) \<in> set es" "source_instrument_id s1 w = Some (instrument_id i)"
        "(f, ORDERBOOK) \<in> set fs" "map_of (refs_orderbook s1) (instrument_id i) \<noteq> None"
      by blast
    from orderbook_to_source_binding[OF a fs(2)]
    have "source_instrument_id s w = Some (instrument_id i)" .
    moreover from ref_core_map_of[OF orderbook_to_source_core[OF a]] fs(4)
    have "map_of (refs_orderbook s) (instrument_id i) \<noteq> None" by simp
    ultimately show ?thesis using fs(1,3) by auto
  qed
qed

lemma orderbook_to_sources_no_ref:
  "map_of (refs_orderbook s) (instrument_id i) = None \<Longrightarrow>
   orderbook_to_sources ob i es s = (s, [])"
  by (induction es) (simp_all add: orderbook_to_source_eq)

lemma orderbook_to_source_cached:
  "orderbook_to_source ob i e s = (s', tr) \<Longrightarrow>
   cached s (instrument_id i) ob \<or> tr \<noteq> [] \<Longrightarrow> cached s' (instrument_id i) ob"
  by (auto simp: orderbook_to_source_eq cached_def update_conv' split: if_splits)

lemma orderbook_to_sources_cached:
  "orderbook_to_sources ob i es s = (s', tr) \<Longrightarrow>
   cached s (instrument_id i) ob \<or> tr \<noteq> [] \<Longrightarrow> cached s' (instrument_id i) ob"
proof (induction es arbitrary: s s' tr)
  case Nil
  then show ?case by simp
next
  case (Cons e es)
  from orderbook_to_sources_Cons[OF Cons.prems(1)] obtain s1 t1 t2 where
    a: "orderbook_to_source ob i e s = (s1, t1)" and b: "orderbook_to_sources ob i es s1 = (s', t2)"
    and c: "tr = t1 @ t2"
    by blast
  from Cons.prems(2) c have "(cached s (instrument_id i) ob \<or> t1 \<noteq> []) \<or> t2 \<noteq> []" by auto
  then show ?case
  proof
    assume "cached s (instrument_id i) ob \<or> t1 \<noteq> []"
    from orderbook_to_source_cached[OF a this] show ?thesis
      by (intro Cons.IH[OF b]) simp
  next
    assume "t2 \<noteq> []"
    then show ?thesis by (intro Cons.IH[OF b]) simp
  qed
qed

lemma stored_before_written_Nil: "stored_before_written k ob []"
  by (simp add: stored_before_written_def)

lemma stored_before_written_Store: "stored_before_written k ob (StoreSnapshot k ob # tr)"
  unfolding stored_before_written_def
proof (intro allI impI)
  fix pre w f v post
  assume "StoreSnapshot k ob # tr = pre @ WriteField w f v # post"
  then show "StoreSnapshot k ob \<in> set pre" by (cases pre) auto
qed

lemma stored_before_written_append:
  assumes "stored_before_written k ob t1" and "stored_before_written k ob t2"
  shows "stored_before_written k ob (t1 @ t2)"
  unfolding stored_before_written_def
proof (intro allI impI)
  fix pre w f v post
  assume "t1 @ t2 = pre @ WriteField w f v # post"
  then obtain us where
    "(t1 = pre @ us \<and> us @ t2 = WriteField w f v # post)
      \<or> (t1 @ us = pre \<and> t2 = us @ WriteField w f v # post)"
    by (auto simp: append_eq_append_conv2)
  then show "StoreSnapshot k ob \<in> set pre"
  proof
    assume a: "t1 = pre @ us \<and> us @ t2 = WriteField w f v # post"
    show ?thesis
    proof (cases us)
      case Nil
      with a have "t2 = [] @ WriteField w f v # post" by simp
      with assms(2) have "StoreSnapshot k ob \<in> set []"
        unfolding stored_before_written_def by blast
      then show ?thesis by simp
    next
      case (Cons u us')
      with a have "t1 = pre @ WriteField w f v # us'" by simp
      with assms(1) show ?thesis unfolding stored_before_written_def by blast
    qed
  next
    assume a: "t1 @ us = pre \<and> t2 = us @ WriteField w f v # post"
    with assms(2) have "StoreSnapshot k ob \<in> set us"
      unfolding stored_before_written_def by blast
    with a show ?thesis by auto
  qed
qed

lemma orderbook_to_sources_order:
  "orderbook_to_sources ob i es s = (s', tr) \<Longrightarrow> stored_before_written (instrument_id i) ob tr"
proof (induction es arbitrary: s s' tr)
  case Nil
  then show ?case by (simp add: stored_before_written_Nil)
next
  case (Cons e es)
  from orderbook_to_sources_Cons[OF Cons.prems(1)] obtain s1 t1 t2 where
    a: "orderbook_to_source ob i e s = (s1, t1)" and b: "orderbook_to_sources ob i es s1 = (s', t2)"
    and c: "tr = t1 @ t2"
    by blast
  from a have "stored_before_written (instrument_id i) ob t1"
    by (auto simp: orderbook_to_source_eq stored_before_written_Nil stored_before_written_Store
        split: if_splits)
  with Cons.IH[OF b] c show ?case by (simp add: stored_before_written_append)
qed

lemma router_effect_simps:
  "router_effect (StoreSnapshot k ob)" "router_effect (WriteField w f v)"
  "\<not> router_effect (StreamData d)" "\<not> router_effect (Resubscribe b)"
  "\<not> router_effect (SetTimeout x b)" "\<not> router_effect (GetOrderBook g n)"
  "\<not> router_effect (OpenStream req c)" "\<not> router_effect (ConsoleError e)"
  by (simp_all add: router_effect_def)

lemma orderbook_to_sources_effects:
  "orderbook_to_sources ob i es s = (s', tr) \<Longrightarrow> list_all router_effect tr"
proof (induction es arbitrary: s s' tr)
  case Nil
  then show ?case by simp
next
  case (Cons e es)
  from orderbook_to_sources_Cons[OF Cons.prems(1)] obtain s1 t1 t2 where
    a: "orderbook_to_source ob i e s = (s1, t1)" and b: "orderbook_to_sources ob i es s1 = (s', t2)"
    and c: "tr = t1 @ t2"
    by blast
  from a have "list_all router_effect t1"
    by (auto simp: orderbook_to_source_eq router_effect_simps list_all_iff split: if_splits)
  with Cons.IH[OF b] c show ?case by simp
qed



lemma router_step_refl: "router_step s s"
  by (simp add: router_step_def)

lemma router_step_trans: "router_step s s1 \<Longrightarrow> router_step s1 s2 \<Longrightarrow> router_step s s2"
  unfolding router_step_def
  by (metis (no_types, lifting) trader.surjective trader.update_convs(8) trader.update_convs(11))

lemma router_step_fields:
  assumes "router_step s s'"
  shows "reconnectTimeout s' = reconnectTimeout s" "aborted s' = aborted s"
    "next_controller s' = next_controller s"
    "marketDataAbortController s' = marketDataAbortController s"
    "figis s' = figis s" "subs_orderbook s' = subs_orderbook s"
    "subs_allTrades s' = subs_allTrades s" "refs_allTrades s' = refs_allTrades s"
    "refs_foreign s' = refs_foreign s"
    "refs_orderbook s' = [] \<longleftrightarrow> refs_orderbook s = []"
    "map (\<lambda>r. instrument r) (map snd (refs_orderbook s')) = map (\<lambda>r. instrument r) (map snd (refs_orderbook s))"
proof -
  from assms have eq: "s' = s\<lparr>refs_orderbook := refs_orderbook s', widgets := widgets s'\<rparr>"
    and core: "map ref_core (refs_orderbook s') = map ref_core (refs_orderbook s)"
    by (simp_all add: router_step_def)
  show "reconnectTimeout s' = reconnectTimeout s" by (subst eq) simp
  show "aborted s' = aborted s" by (subst eq) simp
  show "next_controller s' = next_controller s" by (subst eq) simp
  show "marketDataAbortController s' = marketDataAbortController s" by (subst eq) simp
  show "figis s' = figis s" by (subst eq) simp
  show "subs_orderbook s' = subs_orderbook s" by (subst eq) simp
  show "subs_allTrades s' = subs_allTrades s" by (subst eq) simp
  show "refs_allTrades s' = refs_allTrades s" by (subst eq) simp
  show "refs_foreign s' = refs_foreign s" by (subst eq) simp
  from core show "refs_orderbook s' = [] \<longleftrightarrow> refs_orderbook s = []"
    by (metis map_is_Nil_conv)
  from core have "map (\<lambda>c. snd (snd c)) (map ref_core (refs_orderbook s'))
      = map (\<lambda>c. snd (snd c)) (map ref_core (refs_orderbook s))" by simp
  then show "map (\<lambda>r. instrument r) (map snd (refs_orderbook s')) = map (\<lambda>r. instrument r) (map snd (refs_orderbook s))"
    by (simp add: ref_core_def comp_def)
qed

lemma onOrderbookMessage_step:
  "onOrderbookMessage s msg instr = (s', tr) \<Longrightarrow> router_step s s' \<and> list_all router_effect tr"
  unfolding onOrderbookMessage_def router_step_def
  by (auto split: option.splits
      dest: orderbook_to_sources_frame orderbook_to_sources_core orderbook_to_sources_effects)

lemma write_trade_fields_step:
  "write_trade_fields E t i w es s = (s', tr) \<Longrightarrow>
   s' = s\<lparr>widgets := widgets s'\<rparr> \<and> list_all router_effect tr"
proof (induction es arbitrary: s s' tr)
  case Nil
  then show ?case by simp
next
  case (Cons e es)
  obtain g d where e: "e = (g, d)" by (cases e)
  show ?case
  proof (cases "d = MARKET_PRINT")
    case True
    obtain s1 t1 where r: "write_trade_fields E t i w es (write_field w g (VPrint (trade_print E i t)) s) = (s1, t1)"
      by (cases "write_trade_fields E t i w es (write_field w g (VPrint (trade_print E i t)) s)")
    with Cons.prems e True have "s' = s1" "tr = WriteField w g (VPrint (trade_print E i t)) # t1"
      by simp_all
    moreover from Cons.IH[OF r]
    have "s1 = (write_field w g (VPrint (trade_print E i t)) s)\<lparr>widgets := widgets s1\<rparr>"
      "list_all router_effect t1" by simp_all
    ultimately show ?thesis by (simp add: write_field_def router_effect_simps)
  next
    case False
    with Cons.prems e have "write_trade_fields E t i w es s = (s', tr)" by simp
    then show ?thesis by (rule Cons.IH)
  qed
qed

lemma trade_to_sources_step:
  "trade_to_sources E t i es s = (s', tr) \<Longrightarrow>
   s' = s\<lparr>widgets := widgets s'\<rparr> \<and> list_all router_effect tr"
proof (induction es arbitrary: s s' tr)
  case Nil
  then show ?case by simp
next
  case (Cons e es)
  obtain s1 t1 where a: "(if source_instrument_id s (fst e) = Some (instrument_id i)
             then write_trade_fields E t i (fst e) (snd e) s else (s, [])) = (s1, t1)"
    by (cases "(if source_instrument_id s (fst e) = Some (instrument_id i)
             then write_trade_fields E t i (fst e) (snd e) s else (s, []))")
  obtain s2 t2 where b: "trade_to_sources E t i es s1 = (s2, t2)"
    by (cases "trade_to_sources E t i es s1")
  from Cons.prems a b have c: "s' = s2" "tr = t1 @ t2" by simp_all
  from a have a': "s1 = s\<lparr>widgets := widgets s1\<rparr> \<and> list_all router_effect t1"
    by (auto split: if_splits dest: write_trade_fields_step)
  from Cons.IH[OF b] have b': "s2 = s1\<lparr>widgets := widgets s2\<rparr>" "list_all router_effect t2"
    by simp_all
  from a' b'(1) have "s2 = s\<lparr>widgets := widgets s2\<rparr>"
    by (metis (no_types, lifting) trader.surjective trader.update_convs(11))
  with a' b'(2) c show ?case by simp
qed

lemma onTradeMessage_step:
  "onTradeMessage E s msg instr = (s', tr) \<Longrightarrow> router_step s s' \<and> list_all router_effect tr"
proof -
  assume a: "onTradeMessage E s msg instr = (s', tr)"
  have "s' = s\<lparr>widgets := widgets s'\<rparr> \<and> list_all router_effect tr"
    using a unfolding onTradeMessage_def
    by (auto split: option.splits dest: trade_to_sources_step)
  then have eq: "s' = s\<lparr>widgets := widgets s'\<rparr>" and tr: "list_all router_effect tr"
    by simp_all
  have "refs_orderbook s' = refs_orderbook s" by (subst eq) simp
  with eq tr show ?thesis by (simp add: router_step_def)
qed

lemma onStreamData_step:
  "onStreamData E s d = (s', tr) \<Longrightarrow> router_step s s' \<and> list_all router_effect tr"
  unfolding onStreamData_def
  by (auto split: option.splits simp: router_step_refl
      dest: onOrderbookMessage_step onTradeMessage_step)

section \<open>Properties of the stream controller\<close>

lemma effect_kind_simps:
  "\<not> stream_effect (GetOrderBook g n)" "\<not> reconnect_effect (GetOrderBook g n)"
  "stream_effect (StreamData d)" "\<not> reconnect_effect (StreamData d)"
  "\<not> reconnect_effect (OpenStream req c)" "\<not> stream_effect (OpenStream req c)"
  "reconnect_effect (Resubscribe b)" "reconnect_effect (SetTimeout x b)"
  "\<not> reconnect_effect (ConsoleError e)"
  by (simp_all add: stream_effect_def reconnect_effect_def)

lemma router_effect_kinds:
  "router_effect e \<Longrightarrow> \<not> stream_effect e \<and> \<not> reconnect_effect e"
  by (cases e) (simp_all add: router_effect_def stream_effect_def reconnect_effect_def)

lemma router_effects_kinds:
  "list_all router_effect tr \<Longrightarrow> list_all (\<lambda>e. \<not> stream_effect e \<and> \<not> reconnect_effect e) tr"
  by (induction tr) (simp_all add: router_effect_kinds)

lemma refetch_snapshots_step:
  "refetch_snapshots E is s = (s', tr, r) \<Longrightarrow>
   router_step s s' \<and> list_all (\<lambda>e. \<not> stream_effect e \<and> \<not> reconnect_effect e) tr
     \<and> (\<forall>i\<in>set is. GetOrderBook (tinkoffFigi i) 50 \<in> set tr)"
proof (induction "is" arbitrary: s s' tr r)
  case Nil
  then show ?case by (simp add: router_step_refl)
next
  case (Cons i "is")
  show ?case
  proof (cases "getOrderBook E (tinkoffFigi i) 50")
    case (Inl e)
    obtain s2 t2 r2 where b: "refetch_snapshots E is s = (s2, t2, r2)"
      by (cases "refetch_snapshots E is s")
    with Cons.prems Inl have "s' = s2" "tr = GetOrderBook (tinkoffFigi i) 50 # t2" by simp_all
    with Cons.IH[OF b] show ?thesis by (auto simp: effect_kind_simps)
  next
    case (Inr ob)
    obtain s1 t1 where a: "onOrderbookMessage s (Some ob) (Some i) = (s1, t1)"
      by (cases "onOrderbookMessage s (Some ob) (Some i)")
    obtain s2 t2 r2 where b: "refetch_snapshots E is s1 = (s2, t2, r2)"
      by (cases "refetch_snapshots E is s1")
    from Cons.prems Inr a b have c: "s' = s2" "tr = GetOrderBook (tinkoffFigi i) 50 # t1 @ t2"
      by simp_all
    from onOrderbookMessage_step[OF a] have "router_step s s1"
      "list_all (\<lambda>e. \<not> stream_effect e \<and> \<not> reconnect_effect e) t1"
      by (simp_all add: router_effects_kinds)
    with Cons.IH[OF b] c show ?thesis
      by (auto simp: effect_kind_simps intro: router_step_trans)
  qed
qed

lemma consume_step:
  "consume E ds s = (s', tr) \<Longrightarrow>
   router_step s s' \<and> list_all (\<lambda>e. \<not> reconnect_effect e) tr"
proof (induction ds arbitrary: s s' tr)
  case Nil
  then show ?case by (simp add: router_step_refl)
next
  case (Cons d ds)
  obtain s1 t1 where a: "onStreamData E s d = (s1, t1)" by (cases "onStreamData E s d")
  obtain s2 t2 where b: "consume E ds s1 = (s2, t2)" by (cases "consume E ds s1")
  from Cons.prems a b have c: "s' = s2" "tr = StreamData d # t1 @ t2" by simp_all
  from onStreamData_step[OF a] have "router_step s s1" "list_all (\<lambda>e. \<not> reconnect_effect e) t1"
    using router_effects_kinds[of t1] by (auto simp: list_all_iff)
  with Cons.IH[OF b] c show ?case
    by (auto simp: effect_kind_simps intro: router_step_trans)
qed

lemma try_block_cases:
  "try_block E s reconnect = (s', tr, r) \<Longrightarrow>
   \<exists>s1 pre post. tr = pre @ post \<and> router_step s s' \<and> router_step s s1
     \<and> list_all (\<lambda>e. \<not> stream_effect e \<and> \<not> reconnect_effect e) pre
     \<and> list_all (\<lambda>e. \<not> reconnect_effect e) post
     \<and> (reconnect \<longrightarrow>
          (\<forall>x\<in>set (refs_orderbook s). GetOrderBook (tinkoffFigi (instrument (snd x))) 50 \<in> set pre))"
proof -
  assume a: "try_block E s reconnect = (s', tr, r)"
  obtain s1 t1 r1 where b:
    "(if reconnect
      then refetch_snapshots E (map (\<lambda>r. instrument r) (map snd (refs_orderbook s))) s
      else (s, [], None)) = (s1, t1, r1)"
    by (cases "(if reconnect
      then refetch_snapshots E (map (\<lambda>r. instrument r) (map snd (refs_orderbook s))) s
      else (s, [], None))")
  then have b': "router_step s s1"
    "list_all (\<lambda>e. \<not> stream_effect e \<and> \<not> reconnect_effect e) t1"
    "reconnect \<longrightarrow>
       (\<forall>x\<in>set (refs_orderbook s). GetOrderBook (tinkoffFigi (instrument (snd x))) 50 \<in> set t1)"
    by (force split: if_splits simp: router_step_refl dest!: refetch_snapshots_step)+
  show ?thesis
  proof (cases r1)
    case (Some e)
    with a b have "s' = s1" "tr = t1 @ []" by (simp_all add: try_block_def)
    with b' show ?thesis by (intro exI[of _ s1] exI[of _ t1] exI[of _ "[]"]) simp
  next
    case None
    obtain s2 t2 where c: "consume E (stream E) s1 = (s2, t2)"
      by (cases "consume E (stream E) s1")
    with a b None have "s' = s2" "tr = t1 @ t2" by (simp_all add: try_block_def)
    with b' consume_step[OF c] show ?thesis
      by (intro exI[of _ s1] exI[of _ t1] exI[of _ t2]) (auto intro: router_step_trans)
  qed
qed


lemma reconnect_delay_floor: "1000 \<le> reconnect_delay s"
  by (simp add: reconnect_delay_def)

lemma reconnect_delay_configured: "reconnectTimeout s = Some t \<Longrightarrow> t \<le> reconnect_delay s"
  by (simp add: reconnect_delay_def)

lemma resubscribeToMarketData_trace:
  assumes "refs_orderbook s \<noteq> [] \<or> refs_allTrades s \<noteq> []"
  shows "\<exists>s3 tr. try_block E (fst (open_session s)) reconnect = (s3, tr, session_error E s reconnect)
      \<and> resubscribeToMarketData E s reconnect =
          (s3, OpenStream (marketDataServerSideStreamRequest s) (snd (open_session s)) # tr @
             (case session_error E s reconnect of
                None \<Rightarrow> [Resubscribe True]
              | Some e \<Rightarrow> catch_clause s3 e))"
proof -
  obtain s2 c where o: "open_session s = (s2, c)" by (cases "open_session s")
  obtain s3 tr r where t: "try_block E s2 reconnect = (s3, tr, r)"
    by (cases "try_block E s2 reconnect")
  from o t have "session_error E s reconnect = r" by (simp add: session_error_def)
  with assms o t show ?thesis
    by (auto simp: resubscribeToMarketData_def Let_def)
qed

lemma open_session_fields:
  "reconnectTimeout (fst (open_session s)) = reconnectTimeout s"
  "refs_orderbook (fst (open_session s)) = refs_orderbook s"
  "refs_allTrades (fst (open_session s)) = refs_allTrades s"
  "marketDataAbortController (fst (open_session s)) = Some (snd (open_session s))"
  "\<not> aborted (fst (open_session s)) (snd (open_session s))"
  by (simp_all add: open_session_def Let_def abort_marketData_def split: option.splits)

lemma trader1_simps:
  "refs_orderbook trader1 =
     [(''sber'', \<lparr>refCount = 1, instrument = SBER, lastOrderbookData = None\<rparr>),
      (''gazp'', \<lparr>refCount = 1, instrument = GAZP, lastOrderbookData = None\<rparr>)]"
  "refs_allTrades trader1 = []"
  "reconnectTimeout trader1 = None"
  "subs_orderbook trader1 = [(0, [(''book'', ORDERBOOK)]), (1, [(''book'', ORDERBOOK)])]"
  "marketDataAbortController trader1 = None"
  by (simp_all add: trader1_def trader0_def SBER_def GAZP_def)

lemma session_error_fresh: "session_error E s False = stream_end E"
  by (simp add: session_error_def try_block_def Let_def split: prod.splits)

section \<open>The reconnect path\<close>

text \<open>
  Claim C1. Let at least one instrument be referenced when \<^verbatim>\<open>#resubscribeToMarketData\<close> runs.
  If its session ends with an error that is not a cancellation, the run ends by logging the
  error and arming a timer that calls \<^verbatim>\<open>resubscribeToMarketData(true)\<close>; nothing before
  that asks for a resubscription. The delay of the timer is at least 1000 ms and at least
  the configured \<^verbatim>\<open>reconnectTimeout\<close>. A run with the reconnect flag opens the stream
  with the request built from the references and then awaits the order-book snapshot of
  every referenced order-book instrument, at depth 50, before it takes any message from
  the stream. If the session ends with a cancellation, the run asks for no
  resubscription at all, by timer or by call.
\<close>

theorem reconnect_after_failure:
  assumes "refs_orderbook s \<noteq> [] \<or> refs_allTrades s \<noteq> []"
  shows "(\<forall>e. session_error E s reconnect = Some e \<and> \<not> isAbortError e \<longrightarrow>
            (\<exists>tr. snd (resubscribeToMarketData E s reconnect) =
                     tr @ [ConsoleError e, SetTimeout (reconnect_delay s) True]
                 \<and> list_all (\<lambda>x. \<not> reconnect_effect x) tr))
       \<and> 1000 \<le> reconnect_delay s
       \<and> (\<forall>t. reconnectTimeout s = Some t \<longrightarrow> t \<le> reconnect_delay s)
       \<and> (\<exists>c pre post.
             snd (resubscribeToMarketData E s True) =
               OpenStream (marketDataServerSideStreamRequest s) c # pre @ post
           \<and> (\<forall>x\<in>set (refs_orderbook s).
                 GetOrderBook (tinkoffFigi (instrument (snd x))) 50 \<in> set pre)
           \<and> list_all (\<lambda>x. \<not> stream_effect x) pre)
       \<and> (\<forall>e. session_error E s reconnect = Some e \<and> isAbortError e \<longrightarrow>
            list_all (\<lambda>x. \<not> reconnect_effect x) (snd (resubscribeToMarketData E s reconnect)))"
proof (intro conjI allI impI)
  fix e
  assume e: "session_error E s reconnect = Some e \<and> \<not> isAbortError e"
  from resubscribeToMarketData_trace[OF assms, of E reconnect] obtain s3 tr where
    t: "try_block E (fst (open_session s)) reconnect = (s3, tr, session_error E s reconnect)"
    and r: "resubscribeToMarketData E s reconnect =
          (s3, OpenStream (marketDataServerSideStreamRequest s) (snd (open_session s)) # tr @
             (case session_error E s reconnect of
                None \<Rightarrow> [Resubscribe True]
              | Some e \<Rightarrow> catch_clause s3 e))"
    by blast
  from try_block_cases[OF t] have step: "router_step (fst (open_session s)) s3"
    and tr: "list_all (\<lambda>x. \<not> reconnect_effect x) tr"
    by (auto simp: list_all_iff)
  from router_step_fields(1)[OF step] have "reconnect_delay s3 = reconnect_delay s"
    by (simp add: reconnect_delay_def open_session_fields)
  with r e have "snd (resubscribeToMarketData E s reconnect) =
      (OpenStream (marketDataServerSideStreamRequest s) (snd (open_session s)) # tr)
        @ [ConsoleError e, SetTimeout (reconnect_delay s) True]"
    by (simp add: catch_clause_def)
  moreover from tr have "list_all (\<lambda>x. \<not> reconnect_effect x)
      (OpenStream (marketDataServerSideStreamRequest s) (snd (open_session s)) # tr)"
    by (simp add: effect_kind_simps)
  ultimately show "\<exists>tr. snd (resubscribeToMarketData E s reconnect) =
                     tr @ [ConsoleError e, SetTimeout (reconnect_delay s) True]
                 \<and> list_all (\<lambda>x. \<not> reconnect_effect x) tr"
    by blast
next
  show "1000 \<le> reconnect_delay s" by (rule reconnect_delay_floor)
next
  fix t assume "reconnectTimeout s = Some t"
  then show "t \<le> reconnect_delay s" by (rule reconnect_delay_configured)
next
  from resubscribeToMarketData_trace[OF assms, of E True] obtain s3 tr where
    t: "try_block E (fst (open_session s)) True = (s3, tr, session_error E s True)"
    and r: "resubscribeToMarketData E s True =
          (s3, OpenStream (marketDataServerSideStreamRequest s) (snd (open_session s)) # tr @
             (case session_error E s True of
                None \<Rightarrow> [Resubscribe True]
              | Some e \<Rightarrow> catch_clause s3 e))"
    by blast
  from try_block_cases[OF t] obtain pre post where
    p: "tr = pre @ post" "list_all (\<lambda>e. \<not> stream_effect e \<and> \<not> reconnect_effect e) pre"
      "\<forall>x\<in>set (refs_orderbook (fst (open_session s))).
          GetOrderBook (tinkoffFigi (instrument (snd x))) 50 \<in> set pre"
    by auto
  from p(2) have "list_all (\<lambda>x. \<not> stream_effect x) pre" by (simp add: list_all_iff)
  with r p(1,3) show "\<exists>c pre post.
             snd (resubscribeToMarketData E s True) =
               OpenStream (marketDataServerSideStreamRequest s) c # pre @ post
           \<and> (\<forall>x\<in>set (refs_orderbook s).
                 GetOrderBook (tinkoffFigi (instrument (snd x))) 50 \<in> set pre)
           \<and> list_all (\<lambda>x. \<not> stream_effect x) pre"
    by (intro exI[of _ "snd (open_session s)"] exI[of _ pre]
        exI[of _ "post @ (case session_error E s True of
                None \<Rightarrow> [Resubscribe True]
              | Some e \<Rightarrow> catch_clause s3 e)"])
      (simp add: open_session_fields)
next
  fix e
  assume e: "session_error E s reconnect = Some e \<and> isAbortError e"
  from resubscribeToMarketData_trace[OF assms, of E reconnect] obtain s3 tr where
    t: "try_block E (fst (open_session s)) reconnect = (s3, tr, session_error E s reconnect)"
    and r: "resubscribeToMarketData E s reconnect =
          (s3, OpenStream (marketDataServerSideStreamRequest s) (snd (open_session s)) # tr @
             (case session_error E s reconnect of
                None \<Rightarrow> [Resubscribe True]
              | Some e \<Rightarrow> catch_clause s3 e))"
    by blast
  from try_block_cases[OF t] have "list_all (\<lambda>x. \<not> reconnect_effect x) tr"
    by (auto simp: list_all_iff)
  with r e show "list_all (\<lambda>x. \<not> reconnect_effect x) (snd (resubscribeToMarketData E s reconnect))"
    by (simp add: catch_clause_def effect_kind_simps)
qed

theorem reconnect_after_failure_witness:
  "refs_orderbook trader1 \<noteq> []
   \<and> session_error env1 trader1 False = Some (OtherError ''network'')
   \<and> \<not> isAbortError (OtherError ''network'')
   \<and> (\<exists>tr. snd (resubscribeToMarketData env1 trader1 False) =
              tr @ [ConsoleError (OtherError ''network''), SetTimeout 1000 True])
   \<and> (\<exists>c pre post.
         snd (resubscribeToMarketData env1 trader1 True) =
           OpenStream (marketDataServerSideStreamRequest trader1) c # pre @ post
         \<and> GetOrderBook ''BBG004730N88'' 50 \<in> set pre
         \<and> GetOrderBook ''BBG004730RP0'' 50 \<in> set pre
         \<and> list_all (\<lambda>x. \<not> stream_effect x) pre)"
proof -
  have h: "refs_orderbook trader1 \<noteq> [] \<or> refs_allTrades trader1 \<noteq> []"
    by (simp add: trader1_simps)
  have e: "session_error env1 trader1 False = Some (OtherError ''network'')"
    by (simp add: session_error_fresh env1_def)
  have a: "\<not> isAbortError (OtherError ''network'')" by (simp add: isAbortError_def)
  have d: "reconnect_delay trader1 = 1000" by (simp add: reconnect_delay_def trader1_simps)
  note T = reconnect_after_failure[OF h, of env1 False]
  from T e a d have 1: "\<exists>tr. snd (resubscribeToMarketData env1 trader1 False) =
              tr @ [ConsoleError (OtherError ''network''), SetTimeout 1000 True]"
    by auto
  from T have 2: "\<exists>c pre post.
         snd (resubscribeToMarketData env1 trader1 True) =
           OpenStream (marketDataServerSideStreamRequest trader1) c # pre @ post
         \<and> GetOrderBook ''BBG004730N88'' 50 \<in> set pre
         \<and> GetOrderBook ''BBG004730RP0'' 50 \<in> set pre
         \<and> list_all (\<lambda>x. \<not> stream_effect x) pre"
    by (simp add: trader1_simps SBER_def GAZP_def)
  from h e a 1 2 show ?thesis by (simp add: trader1_simps)
qed

section \<open>The idle state\<close>

lemma delete_absent: "map_of xs k = None \<Longrightarrow> AList.delete k xs = xs"
  by (induction xs) (auto split: if_splits)

lemma abort_marketData_fields:
  "refs_orderbook (abort_marketData s) = refs_orderbook s"
  "refs_allTrades (abort_marketData s) = refs_allTrades s"
  "marketDataAbortController (abort_marketData s) = marketDataAbortController s"
  "\<not> session_live (abort_marketData s)"
  by (simp_all add: abort_marketData_def session_live_def split: option.splits)

lemma router_step_live: "router_step s s' \<Longrightarrow> session_live s' = session_live s"
  by (simp add: session_live_def router_step_fields cong: option.case_cong)

lemma router_step_idle: "router_step s s' \<Longrightarrow> idle_inv s \<Longrightarrow> idle_inv s'"
  by (simp add: idle_inv_def router_step_live router_step_fields)

lemma removeLastRef_idle:
  "removeLastRef s instr refs = (s', None) \<Longrightarrow> idle_inv s'"
  by (auto simp: removeLastRef_def idle_inv_def abort_marketData_fields
      split: if_splits option.splits sum.splits)

lemma removeLastRef_error: "removeLastRef s instr refs = (s', Some e) \<Longrightarrow> s' = s"
  by (auto simp: removeLastRef_def split: if_splits option.splits sum.splits)

lemma removeLastRef_aborts:
  "removeLastRef s instr refs = (s', None) \<Longrightarrow> refs_orderbook s' = [] \<Longrightarrow>
   refs_allTrades s' = [] \<Longrightarrow> marketDataAbortController s = Some c \<Longrightarrow>
   aborted s' c \<and> marketDataAbortController s' = Some c"
  by (auto simp: removeLastRef_def abort_marketData_def
      split: if_splits option.splits sum.splits)

lemma resubscribeToMarketData_idle:
  "idle_inv (fst (resubscribeToMarketData E s reconnect)) = (idle_inv s \<or> refs_orderbook s \<noteq> [] \<or> refs_allTrades s \<noteq> [])"
proof (cases "refs_orderbook s = [] \<and> refs_allTrades s = []")
  case True
  then show ?thesis by (simp add: resubscribeToMarketData_def)
next
  case False
  then have ne: "refs_orderbook s \<noteq> [] \<or> refs_allTrades s \<noteq> []" by simp
  from resubscribeToMarketData_trace[OF ne, of E reconnect] obtain s3 tr where
    t: "try_block E (fst (open_session s)) reconnect = (s3, tr, session_error E s reconnect)"
    and r: "fst (resubscribeToMarketData E s reconnect) = s3"
    by force
  from try_block_cases[OF t] have "router_step (fst (open_session s)) s3" by blast
  from router_step_fields(8,10)[OF this] ne
  have "refs_orderbook s3 \<noteq> [] \<or> refs_allTrades s3 \<noteq> []"
    by (simp add: open_session_fields)
  with r ne show ?thesis by (auto simp: idle_inv_def)
qed

lemma addFirstRef_idle:
  "idle_inv s \<Longrightarrow> idle_inv (fst (addFirstRef E s instr refs))"
proof (cases instr)
  case None
  then show "idle_inv s \<Longrightarrow> ?thesis" by (simp add: addFirstRef_def)
next
  case (Some i)
  assume inv: "idle_inv s"
  let ?s2 = "(refs_set refs (instrument_id i)
                      \<lparr>refCount = 1, instrument = i, lastOrderbookData = None\<rparr> s)
              \<lparr>figis := (figis (refs_set refs (instrument_id i)
                      \<lparr>refCount = 1, instrument = i, lastOrderbookData = None\<rparr> s))(tinkoffFigi i \<mapsto> i)\<rparr>"
  from inv have s2: "idle_inv ?s2"
    by (cases refs) (auto simp: idle_inv_def refs_set_def session_live_def cong: option.case_cong)
  show ?thesis
  proof (cases "refs = OrderbookRefs")
    case False
    with Some s2 show ?thesis by (auto simp: addFirstRef_def Let_def)
  next
    case True
    show ?thesis
    proof (cases "getOrderBook E (tinkoffFigi i) 50")
      case (Inl e)
      with Some True s2 show ?thesis by (simp add: addFirstRef_def Let_def)
    next
      case (Inr ob)
      obtain s3 tr where m: "onOrderbookMessage ?s2 (Some ob) (Some i) = (s3, tr)"
        by (cases "onOrderbookMessage ?s2 (Some ob) (Some i)")
      from onOrderbookMessage_step[OF m] s2 have "idle_inv s3" by (auto intro: router_step_idle)
      with Some True Inr m show ?thesis by (simp add: addFirstRef_def Let_def)
    qed
  qed
qed


lemma onTradeMessage_idle: "idle_inv s \<Longrightarrow> idle_inv (fst (onTradeMessage E s msg instr))"
  by (cases "onTradeMessage E s msg instr") (auto dest: onTradeMessage_step intro: router_step_idle)

lemma onOrderbookMessage_idle: "idle_inv s \<Longrightarrow> idle_inv (fst (onOrderbookMessage s msg instr))"
  by (cases "onOrderbookMessage s msg instr") (auto dest: onOrderbookMessage_step intro: router_step_idle)

lemma trader2_removeLastRef:
  "removeLastRef trader2 (Some SBER) AllTradesRefs =
     (trader2\<lparr>refs_allTrades := [], aborted := (\<lambda>c. False)(0 := True)\<rparr>, None)"
  by (simp add: removeLastRef_def trader2_def trader0_def SBER_def abort_marketData_def)

text \<open>
  Claim C2. Whenever both ref maps are empty there is no live streaming session. A
  resubscribe that finds both maps empty returns at once: it opens no stream and changes
  nothing. A \<^verbatim>\<open>removeLastRef\<close> that leaves both maps empty aborts the controller of
  the active stream, so that no live session remains. The property holds of a new trader
  and is kept by \<^verbatim>\<open>removeLastRef\<close>, \<^verbatim>\<open>addFirstRef\<close>, a run of
  \<^verbatim>\<open>#resubscribeToMarketData\<close> and both message handlers.
\<close>

theorem no_session_when_idle:
  "(refs_orderbook s = [] \<and> refs_allTrades s = [] \<longrightarrow>
      resubscribeToMarketData E s reconnect = (s, []))
   \<and> (snd (removeLastRef s instr refs) = None
        \<and> refs_orderbook (fst (removeLastRef s instr refs)) = []
        \<and> refs_allTrades (fst (removeLastRef s instr refs)) = [] \<longrightarrow>
          \<not> session_live (fst (removeLastRef s instr refs))
          \<and> (\<forall>c. marketDataAbortController s = Some c \<longrightarrow>
                aborted (fst (removeLastRef s instr refs)) c))
   \<and> idle_inv trader0
   \<and> (idle_inv s \<longrightarrow>
        idle_inv (fst (removeLastRef s instr refs))
        \<and> idle_inv (fst (addFirstRef E s instr refs))
        \<and> idle_inv (fst (resubscribeToMarketData E s reconnect))
        \<and> idle_inv (fst (onOrderbookMessage s msg instr))
        \<and> idle_inv (fst (onTradeMessage E s tmsg instr)))"
proof (intro conjI impI allI)
  assume "refs_orderbook s = [] \<and> refs_allTrades s = []"
  then show "resubscribeToMarketData E s reconnect = (s, [])"
    by (simp add: resubscribeToMarketData_def)
next
  assume a: "snd (removeLastRef s instr refs) = None
        \<and> refs_orderbook (fst (removeLastRef s instr refs)) = []
        \<and> refs_allTrades (fst (removeLastRef s instr refs)) = []"
  then have r: "removeLastRef s instr refs = (fst (removeLastRef s instr refs), None)"
    by (metis prod.collapse)
  from removeLastRef_idle[OF r] a show "\<not> session_live (fst (removeLastRef s instr refs))"
    by (simp add: idle_inv_def)
next
  fix c
  assume a: "snd (removeLastRef s instr refs) = None
        \<and> refs_orderbook (fst (removeLastRef s instr refs)) = []
        \<and> refs_allTrades (fst (removeLastRef s instr refs)) = []"
    and c: "marketDataAbortController s = Some c"
  from a have r: "removeLastRef s instr refs = (fst (removeLastRef s instr refs), None)"
    by (metis prod.collapse)
  from removeLastRef_aborts[OF r _ _ c] a show "aborted (fst (removeLastRef s instr refs)) c"
    by simp
next
  show "idle_inv trader0" by (simp add: idle_inv_def session_live_def trader0_def)
next
  assume inv: "idle_inv s"
  show "idle_inv (fst (removeLastRef s instr refs))"
  proof (cases "snd (removeLastRef s instr refs)")
    case None
    then have "removeLastRef s instr refs = (fst (removeLastRef s instr refs), None)"
      by (metis prod.collapse)
    then show ?thesis by (rule removeLastRef_idle)
  next
    case (Some e)
    then have "removeLastRef s instr refs = (fst (removeLastRef s instr refs), Some e)"
      by (metis prod.collapse)
    from removeLastRef_error[OF this] inv show ?thesis by simp
  qed
next
  assume "idle_inv s"
  then show "idle_inv (fst (addFirstRef E s instr refs))" by (rule addFirstRef_idle)
next
  assume "idle_inv s"
  then show "idle_inv (fst (resubscribeToMarketData E s reconnect))"
    by (simp add: resubscribeToMarketData_idle)
next
  assume "idle_inv s"
  then show "idle_inv (fst (onOrderbookMessage s msg instr))" by (rule onOrderbookMessage_idle)
next
  assume "idle_inv s"
  then show "idle_inv (fst (onTradeMessage E s tmsg instr))" by (rule onTradeMessage_idle)
qed

theorem no_session_when_idle_witness:
  "session_live trader2
   \<and> idle_inv trader2
   \<and> snd (removeLastRef trader2 (Some SBER) AllTradesRefs) = None
   \<and> refs_orderbook (fst (removeLastRef trader2 (Some SBER) AllTradesRefs)) = []
   \<and> refs_allTrades (fst (removeLastRef trader2 (Some SBER) AllTradesRefs)) = []
   \<and> \<not> session_live (fst (removeLastRef trader2 (Some SBER) AllTradesRefs))
   \<and> aborted (fst (removeLastRef trader2 (Some SBER) AllTradesRefs)) 0
   \<and> refs_orderbook trader0 = [] \<and> refs_allTrades trader0 = []
   \<and> resubscribeToMarketData env1 trader0 True = (trader0, [])
   \<and> idle_inv (fst (resubscribeToMarketData env1 trader2 True))"
proof -
  have l: "session_live trader2" by (simp add: session_live_def trader2_def trader0_def)
  have i: "idle_inv trader2" by (simp add: idle_inv_def trader2_def trader0_def SBER_def)
  have c: "marketDataAbortController trader2 = Some 0" by (simp add: trader2_def trader0_def)
  have e: "snd (removeLastRef trader2 (Some SBER) AllTradesRefs) = None
    \<and> refs_orderbook (fst (removeLastRef trader2 (Some SBER) AllTradesRefs)) = []
    \<and> refs_allTrades (fst (removeLastRef trader2 (Some SBER) AllTradesRefs)) = []"
    by (simp add: trader2_removeLastRef) (simp add: trader2_def trader0_def)
  have z: "refs_orderbook trader0 = [] \<and> refs_allTrades trader0 = []"
    by (simp add: trader0_def)
  note T = no_session_when_idle[of trader2 env1 True "Some SBER" AllTradesRefs None None]
  note T0 = no_session_when_idle[of trader0 env1 True "Some SBER" AllTradesRefs None None]
  from T e c have "\<not> session_live (fst (removeLastRef trader2 (Some SBER) AllTradesRefs))
    \<and> aborted (fst (removeLastRef trader2 (Some SBER) AllTradesRefs)) 0" by blast
  moreover from T0 z have "resubscribeToMarketData env1 trader0 True = (trader0, [])" by blast
  moreover from T i have "idle_inv (fst (resubscribeToMarketData env1 trader2 True))" by blast
  ultimately show ?thesis using l i e z by blast
qed

section \<open>Removing a reference that does not exist\<close>

text \<open>
  The claim C3 as stated, that removing a reference that does not exist signals an
  error, fails: on a new trader, which has no reference at all, \<^verbatim>\<open>removeLastRef\<close>
  for the order book of SBER returns without an error and leaves the trader as it was.
\<close>

theorem removeLastRef_absent_counterexample:
  "map_of (refs_of OrderbookRefs trader0) (instrument_id SBER) = None
   \<and> removeLastRef trader0 (Some SBER) OrderbookRefs = (trader0, None)"
  by (simp add: removeLastRef_def refs_of_def trader0_def abort_marketData_def)

text \<open>
  Claim C3, amended. For every kind and instrument with no reference in the map of that
  kind, \<^verbatim>\<open>removeLastRef\<close> raises no error: it leaves the maps and all other parts of
  the trader as they are, except that it aborts the current stream controller when both
  ref maps are empty.
\<close>

theorem removeLastRef_absent:
  assumes "map_of (refs_of refs s) (instrument_id i) = None"
  shows "removeLastRef s (Some i) refs =
          (if refs_orderbook s = [] \<and> refs_allTrades s = [] then abort_marketData s else s, None)"
  using assms by (cases refs) (simp_all add: removeLastRef_def refs_of_def delete_absent)

theorem removeLastRef_absent_witness:
  "map_of (refs_of AllTradesRefs trader1) (instrument_id SBER) = None
   \<and> removeLastRef trader1 (Some SBER) AllTradesRefs = (trader1, None)"
proof -
  have h: "map_of (refs_of AllTradesRefs trader1) (instrument_id SBER) = None"
    by (simp add: refs_of_def trader1_simps)
  from removeLastRef_absent[OF h] h show ?thesis by (simp add: trader1_simps)
qed

section \<open>The subscription request\<close>

text \<open>
  Claim C5. When at least one reference exists, a run of \<^verbatim>\<open>#resubscribeToMarketData\<close>
  starts by opening the stream with a request that has, for each kind with at least one
  reference, a section with the subscribe action that lists the figi of every referenced
  instrument, in the order of the map, every order-book entry with depth 50; the section
  of a kind whose map is empty is absent.
\<close>

theorem request_lists_every_ref:
  assumes "refs_orderbook s \<noteq> [] \<or> refs_allTrades s \<noteq> []"
  shows "\<exists>req c tr.
      snd (resubscribeToMarketData E s reconnect) = OpenStream req c # tr
      \<and> (refs_orderbook s = [] \<longrightarrow> subscribeOrderBookRequest req = None)
      \<and> (refs_orderbook s \<noteq> [] \<longrightarrow>
            (\<exists>sec. subscribeOrderBookRequest req = Some sec
               \<and> subscriptionAction sec = SUBSCRIPTION_ACTION_SUBSCRIBE
               \<and> map instrumentId (instruments sec) =
                   map (\<lambda>x. tinkoffFigi (instrument (snd x))) (refs_orderbook s)
               \<and> (\<forall>e\<in>set (instruments sec). depth e = 50)))
      \<and> (refs_allTrades s = [] \<longrightarrow> subscribeTradesRequest req = None)
      \<and> (refs_allTrades s \<noteq> [] \<longrightarrow>
            (\<exists>sec. subscribeTradesRequest req = Some sec
               \<and> subscriptionAction sec = SUBSCRIPTION_ACTION_SUBSCRIBE
               \<and> instruments sec =
                   map (\<lambda>x. tinkoffFigi (instrument (snd x))) (refs_allTrades s)))"
proof -
  from resubscribeToMarketData_trace[OF assms, of E reconnect] obtain tr where
    "snd (resubscribeToMarketData E s reconnect) =
       OpenStream (marketDataServerSideStreamRequest s) (snd (open_session s)) # tr"
    by force
  then show ?thesis
    by (intro exI[of _ "marketDataServerSideStreamRequest s"] exI[of _ "snd (open_session s)"]
        exI[of _ tr])
      (auto simp: marketDataServerSideStreamRequest_def comp_def)
qed

theorem request_lists_every_ref_witness:
  "refs_orderbook trader1 \<noteq> [] \<and> refs_allTrades trader1 = []
   \<and> (\<exists>c tr. snd (resubscribeToMarketData env1 trader1 False) =
         OpenStream
           \<lparr>subscribeOrderBookRequest =
              Some \<lparr>subscriptionAction = SUBSCRIPTION_ACTION_SUBSCRIBE,
                    instruments = [\<lparr>instrumentId = ''BBG004730N88'', depth = 50\<rparr>,
                                   \<lparr>instrumentId = ''BBG004730RP0'', depth = 50\<rparr>]\<rparr>,
            subscribeTradesRequest = None\<rparr> c # tr)"
proof -
  have h: "refs_orderbook trader1 \<noteq> [] \<or> refs_allTrades trader1 \<noteq> []"
    by (simp add: trader1_simps)
  from request_lists_every_ref[OF h, of env1 False] obtain req c tr sec where
    r: "snd (resubscribeToMarketData env1 trader1 False) = OpenStream req c # tr"
    and o: "subscribeOrderBookRequest req = Some sec"
      "subscriptionAction sec = SUBSCRIPTION_ACTION_SUBSCRIBE"
      "map instrumentId (instruments sec) = [''BBG004730N88'', ''BBG004730RP0'']"
      "\<forall>e\<in>set (instruments sec). depth e = 50"
    and t: "subscribeTradesRequest req = None"
    by (auto simp: trader1_simps SBER_def GAZP_def)
  from o(3) obtain a b where ab: "instruments sec = [a, b]"
    "instrumentId a = ''BBG004730N88''" "instrumentId b = ''BBG004730RP0''"
    by (auto simp: map_eq_Cons_conv)
  with o(4) have "a = \<lparr>instrumentId = ''BBG004730N88'', depth = 50\<rparr>"
    "b = \<lparr>instrumentId = ''BBG004730RP0'', depth = 50\<rparr>"
    by simp_all
  with ab(1) o(2) have "sec = \<lparr>subscriptionAction = SUBSCRIPTION_ACTION_SUBSCRIBE,
                    instruments = [\<lparr>instrumentId = ''BBG004730N88'', depth = 50\<rparr>,
                                   \<lparr>instrumentId = ''BBG004730RP0'', depth = 50\<rparr>]\<rparr>"
    by simp
  with o(1) t have "req = \<lparr>subscribeOrderBookRequest =
              Some \<lparr>subscriptionAction = SUBSCRIPTION_ACTION_SUBSCRIBE,
                    instruments = [\<lparr>instrumentId = ''BBG004730N88'', depth = 50\<rparr>,
                                   \<lparr>instrumentId = ''BBG004730RP0'', depth = 50\<rparr>]\<rparr>,
            subscribeTradesRequest = None\<rparr>"
    by simp
  with r show ?thesis by (auto simp: trader1_simps)
qed

section \<open>Double arithmetic\<close>

text \<open>
  Rounding to a double moves a number by at most half a unit in the last place, to a
  multiple of that unit, and no double is nearer. Numbers that are doubles already,
  \<open>m \<sqdot> 2\<^sup>e\<close> with \<open>\<bar>m\<bar> \<le> 2\<^sup>5\<^sup>3\<close> and \<open>e \<ge> -1074\<close>, are left as they are.
\<close>

lemma pow2_pos: "0 < pow2 e"
  by (simp add: pow2_def)

lemma ulp_pos: "0 < ulp z"
  by (simp add: ulp_def pow2_pos)

lemma round_half_even_cases:
  obtains (down) "round_half_even t = \<lfloor>t\<rfloor>" and "t - of_int \<lfloor>t\<rfloor> \<le> 1 / 2"
  | (up) "round_half_even t = \<lfloor>t\<rfloor> + 1" and "1 / 2 \<le> t - of_int \<lfloor>t\<rfloor>"
  unfolding round_half_even_def Let_def
  by (cases "t - of_int \<lfloor>t\<rfloor> < 1 / 2"; cases "1 / 2 < t - of_int \<lfloor>t\<rfloor>"; cases "even \<lfloor>t\<rfloor>")
    simp_all

lemma round_half_even_error: "\<bar>of_int (round_half_even t) - t\<bar> \<le> 1 / 2"
proof -
  have n: "of_int \<lfloor>t\<rfloor> \<le> t" "t < of_int \<lfloor>t\<rfloor> + 1" by linarith+
  show ?thesis
  proof (cases t rule: round_half_even_cases)
    case down
    with n show ?thesis by (simp add: abs_le_iff)
  next
    case up
    with n show ?thesis by (simp add: abs_le_iff)
  qed
qed

lemma round_half_even_nearest: "\<bar>of_int (round_half_even t) - t\<bar> \<le> \<bar>of_int m - t\<bar>"
proof -
  have n: "of_int \<lfloor>t\<rfloor> \<le> t" "t < of_int \<lfloor>t\<rfloor> + 1" by linarith+
  have "m \<le> \<lfloor>t\<rfloor> \<or> \<lfloor>t\<rfloor> + 1 \<le> m" by linarith
  then have m: "real_of_int m \<le> of_int \<lfloor>t\<rfloor> \<or> of_int \<lfloor>t\<rfloor> + 1 \<le> real_of_int m"
    by (metis of_int_le_iff of_int_add of_int_1)
  show ?thesis
  proof (cases t rule: round_half_even_cases)
    case down
    then have k: "real_of_int (round_half_even t) = of_int \<lfloor>t\<rfloor>" by simp
    from m n down(2) show ?thesis unfolding k by linarith
  next
    case up
    then have k: "real_of_int (round_half_even t) = of_int \<lfloor>t\<rfloor> + 1" by simp
    from m n up(2) show ?thesis unfolding k by linarith
  qed
qed

lemma round_half_even_int: "round_half_even (of_int k) = k"
  by (simp add: round_half_even_def)

lemma to_double_error: "\<bar>to_double z - z\<bar> \<le> ulp z / 2"
proof -
  have u: "0 < ulp z" by (rule ulp_pos)
  have "to_double z - z = (of_int (round_half_even (z / ulp z)) - z / ulp z) * ulp z"
    using u by (simp add: to_double_def left_diff_distrib)
  then have "\<bar>to_double z - z\<bar> = \<bar>of_int (round_half_even (z / ulp z)) - z / ulp z\<bar> * ulp z"
    using u by (simp add: abs_mult)
  also have "\<dots> \<le> 1 / 2 * ulp z"
    using round_half_even_error[of "z / ulp z"] u by (intro mult_right_mono) auto
  finally show ?thesis by simp
qed

lemma pow2_add: "pow2 (a + b) = pow2 a * pow2 b"
  by (simp add: pow2_def powr_add)

lemma pow2_nat: "pow2 (int n) = 2 ^ n"
  by (simp add: pow2_def powr_realpow)

lemma pow2_split: "e2 \<le> e1 \<Longrightarrow> pow2 e1 = 2 ^ nat (e1 - e2) * pow2 e2"
proof -
  assume "e2 \<le> e1"
  then have "e1 = int (nat (e1 - e2)) + e2" by simp
  then have "pow2 e1 = pow2 (int (nat (e1 - e2)) + e2)" by simp
  also have "\<dots> = 2 ^ nat (e1 - e2) * pow2 e2" by (simp only: pow2_add pow2_nat)
  finally show ?thesis .
qed

lemma pow2_mono: "a \<le> b \<Longrightarrow> pow2 a \<le> pow2 b"
  by (simp add: pow2_def)

lemma pow2_less: "a < b \<Longrightarrow> pow2 a < pow2 b"
  by (simp add: pow2_def)

lemma floor_log_lower: "z \<noteq> 0 \<Longrightarrow> pow2 \<lfloor>log 2 \<bar>z\<bar>\<rfloor> \<le> \<bar>z\<bar>"
proof -
  assume z: "z \<noteq> 0"
  have "real_of_int \<lfloor>log 2 \<bar>z\<bar>\<rfloor> \<le> log 2 \<bar>z\<bar>" by simp
  then have "2 powr real_of_int \<lfloor>log 2 \<bar>z\<bar>\<rfloor> \<le> 2 powr log 2 \<bar>z\<bar>"
    by (intro powr_mono) simp_all
  with z show ?thesis by (simp add: pow2_def)
qed

lemma floor_log_upper: "z \<noteq> 0 \<Longrightarrow> \<bar>z\<bar> < pow2 (\<lfloor>log 2 \<bar>z\<bar>\<rfloor> + 1)"
proof -
  assume z: "z \<noteq> 0"
  have "log 2 \<bar>z\<bar> < real_of_int (\<lfloor>log 2 \<bar>z\<bar>\<rfloor> + 1)" by simp
  then have "2 powr log 2 \<bar>z\<bar> < 2 powr real_of_int (\<lfloor>log 2 \<bar>z\<bar>\<rfloor> + 1)"
    by (intro powr_less_mono) simp_all
  with z show ?thesis by (simp add: pow2_def)
qed

lemma floor_log_less: "z \<noteq> 0 \<Longrightarrow> \<bar>z\<bar> < pow2 k \<Longrightarrow> \<lfloor>log 2 \<bar>z\<bar>\<rfloor> < k"
proof (rule ccontr)
  assume z: "z \<noteq> 0" and a: "\<bar>z\<bar> < pow2 k" and "\<not> \<lfloor>log 2 \<bar>z\<bar>\<rfloor> < k"
  then have "k \<le> \<lfloor>log 2 \<bar>z\<bar>\<rfloor>" by simp
  from pow2_mono[OF this] floor_log_lower[OF z] a show False by simp
qed

lemma floor_log_ge: "pow2 k \<le> \<bar>z\<bar> \<Longrightarrow> k \<le> \<lfloor>log 2 \<bar>z\<bar>\<rfloor>"
proof (rule ccontr)
  assume a: "pow2 k \<le> \<bar>z\<bar>" and "\<not> k \<le> \<lfloor>log 2 \<bar>z\<bar>\<rfloor>"
  then have "\<lfloor>log 2 \<bar>z\<bar>\<rfloor> + 1 \<le> k" by simp
  moreover from a pow2_pos[of k] have z: "z \<noteq> 0" by auto
  ultimately show False using pow2_mono[of "\<lfloor>log 2 \<bar>z\<bar>\<rfloor> + 1" k] floor_log_upper[OF z] a
    by simp
qed

lemma ulp_bound:
  assumes "\<bar>z\<bar> < pow2 k" and "- 1021 \<le> k"
  shows "ulp z \<le> pow2 (k - 53)"
proof (cases "z = 0")
  case True
  with assms(2) show ?thesis by (simp add: ulp_def ulp_exp_def pow2_mono)
next
  case False
  from floor_log_less[OF False assms(1)] assms(2) have "ulp_exp z \<le> k - 53"
    using False by (simp add: ulp_exp_def)
  then show ?thesis by (simp add: ulp_def pow2_mono)
qed

lemma to_double_error_bound:
  assumes "\<bar>z\<bar> < pow2 k" and "- 1021 \<le> k"
  shows "\<bar>to_double z - z\<bar> \<le> pow2 (k - 53) / 2"
  using to_double_error[of z] ulp_bound[OF assms] by simp

lemma to_double_grid:
  assumes "pow2 k \<le> \<bar>z\<bar>"
  shows "\<exists>m. to_double z = of_int m * pow2 (k - 52)"
proof -
  from assms pow2_pos[of k] have z: "z \<noteq> 0" by auto
  from floor_log_ge[OF assms] z have "k - 52 \<le> ulp_exp z" by (simp add: ulp_exp_def)
  from pow2_split[OF this] have "ulp z = 2 ^ nat (ulp_exp z - (k - 52)) * pow2 (k - 52)"
    by (simp add: ulp_def)
  then have "to_double z =
      of_int (round_half_even (z / ulp z) * 2 ^ nat (ulp_exp z - (k - 52))) * pow2 (k - 52)"
    by (simp add: to_double_def)
  then show ?thesis by blast
qed

lemma to_double_nearest_grid: "\<bar>to_double z - z\<bar> \<le> \<bar>of_int m * ulp z - z\<bar>"
proof -
  have u: "0 < ulp z" by (rule ulp_pos)
  have a: "to_double z - z = (of_int (round_half_even (z / ulp z)) - z / ulp z) * ulp z"
    using u by (simp add: to_double_def left_diff_distrib)
  have b: "of_int m * ulp z - z = (of_int m - z / ulp z) * ulp z"
    using u by (simp add: left_diff_distrib)
  have "\<bar>of_int (round_half_even (z / ulp z)) - z / ulp z\<bar> * ulp z
      \<le> \<bar>of_int m - z / ulp z\<bar> * ulp z"
    using round_half_even_nearest[of "z / ulp z" m] u by (intro mult_right_mono) auto
  then show ?thesis unfolding a b using u by (simp add: abs_mult)
qed

lemma to_double_zero: "to_double 0 = 0"
  by (simp add: to_double_def round_half_even_def)

lemma to_double_on_grid: "z = of_int m * ulp z \<Longrightarrow> to_double z = z"
proof -
  assume a: "z = of_int m * ulp z"
  have u: "0 < ulp z" by (rule ulp_pos)
  from a u have "z / ulp z = of_int m" by (simp add: field_simps)
  then have "round_half_even (z / ulp z) = m" by (simp add: round_half_even_int)
  with a show ?thesis by (simp add: to_double_def)
qed

lemma to_double_exact:
  assumes "z = of_int m * pow2 e" and "\<bar>m\<bar> < 2 ^ 53" and "- 1074 \<le> e"
  shows "to_double z = z"
proof (cases "z = 0")
  case True
  then show ?thesis by (simp add: to_double_zero)
next
  case False
  from assms(2) have "\<bar>real_of_int m\<bar> < 2 ^ 53"
    by (metis of_int_abs of_int_less_iff of_int_numeral of_int_power)
  then have "\<bar>z\<bar> < 2 ^ 53 * pow2 e"
    using pow2_pos[of e] by (simp add: assms(1) abs_mult)
  also have "2 ^ 53 * pow2 e = pow2 (e + 53)"
    using pow2_nat[of 53] by (simp add: pow2_add)
  finally have "\<lfloor>log 2 \<bar>z\<bar>\<rfloor> < e + 53" by (rule floor_log_less[OF False])
  with assms(3) False have le: "ulp_exp z \<le> e" by (simp add: ulp_exp_def)
  from pow2_split[OF le] have "pow2 e = 2 ^ nat (e - ulp_exp z) * ulp z" by (simp add: ulp_def)
  with assms(1) have "z = of_int (m * 2 ^ nat (e - ulp_exp z)) * ulp z" by simp
  then show ?thesis by (rule to_double_on_grid)
qed

lemma to_double_nearest:
  assumes "to_double d = d"
  shows "\<bar>to_double z - z\<bar> \<le> \<bar>d - z\<bar>"
proof (cases "ulp_exp z \<le> ulp_exp d \<or> d = 0")
  case True
  then have "\<exists>m. d = of_int m * ulp z"
  proof
    assume le: "ulp_exp z \<le> ulp_exp d"
    from pow2_split[OF le] have "ulp d = 2 ^ nat (ulp_exp d - ulp_exp z) * ulp z"
      by (simp add: ulp_def)
    with assms have "d = of_int (round_half_even (d / ulp d) * 2 ^ nat (ulp_exp d - ulp_exp z)) * ulp z"
      by (simp add: to_double_def)
    then show ?thesis by blast
  next
    assume "d = 0"
    then have "d = of_int 0 * ulp z" by simp
    then show ?thesis by blast
  qed
  then obtain m where "d = of_int m * ulp z" by blast
  with to_double_nearest_grid[of z m] show ?thesis by simp
next
  case False
  then have lt: "ulp_exp d < ulp_exp z" and d: "d \<noteq> 0" by simp_all
  have z: "z \<noteq> 0"
  proof
    assume "z = 0"
    then have "ulp_exp z = - 1074" by (simp add: ulp_exp_def)
    with lt d show False by (simp add: ulp_exp_def)
  qed
  let ?L = "\<lfloor>log 2 \<bar>z\<bar>\<rfloor>"
  from lt z d have ez: "ulp_exp z = ?L - 52" and ld: "\<lfloor>log 2 \<bar>d\<bar>\<rfloor> < ?L"
    by (auto simp: ulp_exp_def max_def split: if_splits)
  from ld have "\<lfloor>log 2 \<bar>d\<bar>\<rfloor> + 1 \<le> ?L" by simp
  from pow2_mono[OF this] floor_log_upper[OF d] have dL: "\<bar>d\<bar> < pow2 ?L" by simp
  have zL: "pow2 ?L \<le> \<bar>z\<bar>" by (rule floor_log_lower[OF z])
  have "pow2 ?L = pow2 (52 + (?L - 52))" by simp
  also have "\<dots> = 2 ^ 52 * ulp z"
    using pow2_nat[of 52] by (simp only: pow2_add ulp_def ez) simp
  finally have g: "pow2 ?L = of_int (2 ^ 52) * ulp z" by simp
  show ?thesis
  proof (cases "0 < z")
    case True
    from to_double_nearest_grid[of z "2 ^ 52"] g
    have "\<bar>to_double z - z\<bar> \<le> \<bar>pow2 ?L - z\<bar>" by simp
    with True zL dL show ?thesis by linarith
  next
    case False
    with z have neg: "z < 0" by simp
    from g have "- pow2 ?L = of_int (- (2 ^ 52)) * ulp z" by simp
    with to_double_nearest_grid[of z "- (2 ^ 52)"]
    have "\<bar>to_double z - z\<bar> \<le> \<bar>- pow2 ?L - z\<bar>" by simp
    with neg zL dL show ?thesis by linarith
  qed
qed

lemma pow2_numerals:
  "pow2 0 = 1" "pow2 1 = 2" "pow2 (numeral n) = 2 ^ numeral n"
  "pow2 (- numeral n) = 1 / 2 ^ numeral n" "pow2 (- 1) = 1 / 2"
  by (simp_all add: pow2_def powr_neg_numeral powr_minus_divide)

lemma ratio_bound: "\<bar>z / ulp z\<bar> < 2 ^ 53"
proof (cases "z = 0")
  case True
  then show ?thesis by simp
next
  case False
  let ?L = "\<lfloor>log 2 \<bar>z\<bar>\<rfloor>"
  from False have "?L - 52 \<le> ulp_exp z" by (simp add: ulp_exp_def)
  from pow2_mono[OF this] have "pow2 (?L - 52) \<le> ulp z" by (simp add: ulp_def)
  moreover have "pow2 (?L + 1) = 2 ^ 53 * pow2 (?L - 52)"
    using pow2_split[of "?L - 52" "?L + 1"] by simp
  ultimately have "pow2 (?L + 1) \<le> 2 ^ 53 * ulp z" by simp
  with floor_log_upper[OF False] have "\<bar>z\<bar> < 2 ^ 53 * ulp z" by simp
  then show ?thesis using ulp_pos[of z] by (simp add: field_simps)
qed

lemma round_half_even_bound:
  assumes "\<bar>t\<bar> < 2 ^ 53"
  shows "\<bar>round_half_even t\<bar> \<le> 2 ^ 53"
proof -
  from round_half_even_error[of t] assms
  have "\<bar>real_of_int (round_half_even t)\<bar> < 2 ^ 53 + 1" by simp argo
  then have "real_of_int \<bar>round_half_even t\<bar> < real_of_int (2 ^ 53 + 1)" by simp
  then have "\<bar>round_half_even t\<bar> < 2 ^ 53 + 1" by (simp only: of_int_less_iff)
  then show ?thesis by simp
qed

lemma to_double_exact_le:
  assumes "z = of_int m * pow2 e" and "\<bar>m\<bar> \<le> 2 ^ 53" and "- 1074 \<le> e"
  shows "to_double z = z"
proof (cases "\<bar>m\<bar> < 2 ^ 53")
  case True
  with assms(1,3) show ?thesis by (intro to_double_exact[of z m e])
next
  case False
  with assms(2) have "m = 2 ^ 53 \<or> m = - (2 ^ 53)" by linarith
  moreover have "pow2 (e + 1) = 2 * pow2 e" by (simp add: pow2_add pow2_numerals)
  ultimately have "z = of_int (2 ^ 52) * pow2 (e + 1) \<or> z = of_int (- (2 ^ 52)) * pow2 (e + 1)"
    using assms(1) by auto
  then show ?thesis
  proof
    assume "z = of_int (2 ^ 52) * pow2 (e + 1)"
    then show ?thesis using assms(3) by (intro to_double_exact[of z "2 ^ 52" "e + 1"]) simp_all
  next
    assume "z = of_int (- (2 ^ 52)) * pow2 (e + 1)"
    then show ?thesis using assms(3) by (intro to_double_exact[of z "- (2 ^ 52)" "e + 1"]) simp_all
  qed
qed

lemma ulp_exp_ge: "- 1074 \<le> ulp_exp z"
  by (simp add: ulp_exp_def)

lemma to_double_idem: "to_double (to_double z) = to_double z"
proof -
  have "to_double z = of_int (round_half_even (z / ulp z)) * pow2 (ulp_exp z)"
    by (simp add: to_double_def ulp_def)
  then show ?thesis
    using round_half_even_bound[OF ratio_bound[of z]] ulp_exp_ge[of z]
    by (rule to_double_exact_le)
qed

lemma MAX_VALUE_large: "2 ^ 53 + 1 \<le> MAX_VALUE"
proof -
  have "(2::real) ^ 1 \<le> 2 ^ 971" by (rule power_increasing) simp_all
  then have "(2 ^ 53 - 1) * (2::real) \<le> (2 ^ 53 - 1) * 2 ^ 971"
    by (intro mult_left_mono) simp_all
  then show ?thesis by (simp add: MAX_VALUE_def)
qed

lemma to_double_half: "to_double (1 / 2) = 1 / 2"
proof -
  have "(1 / 2 :: real) = of_int 1 * pow2 (- 1)" by (simp add: pow2_numerals)
  then show ?thesis by (rule to_double_exact) simp_all
qed

lemma to_double_int: "\<bar>m\<bar> < 2 ^ 53 \<Longrightarrow> to_double (of_int m) = of_int m"
  by (rule to_double_exact[of _ m 0]) (simp_all add: pow2_numerals)

lemma to_double_binade:
  assumes "pow2 k \<le> \<bar>z\<bar>" and "\<bar>z\<bar> < pow2 (k + 1)" and "- 1022 \<le> k"
  shows "to_double z = of_int (round_half_even (z / pow2 (k - 52))) * pow2 (k - 52)"
proof -
  from assms(1) pow2_pos[of k] have z: "z \<noteq> 0" by auto
  from floor_log_ge[OF assms(1)] floor_log_less[OF z assms(2)] have "\<lfloor>log 2 \<bar>z\<bar>\<rfloor> = k" by simp
  with z assms(3) have "ulp_exp z = k - 52" by (simp add: ulp_exp_def)
  then show ?thesis by (simp add: to_double_def ulp_def)
qed

section \<open>Quotations\<close>

text \<open>
  The two parts of a quotation never have opposite signs, and the magnitude of nano is
  at most one unit.
\<close>

lemma Math_round_bounds:
  assumes "0 \<le> y" and "y < 1"
  shows "0 \<le> Math_round (y * 1000000000)" and "Math_round (y * 1000000000) \<le> 1000000000"
proof -
  from assms(1) show "0 \<le> Math_round (y * 1000000000)"
    unfolding Math_round_def by (simp add: zero_le_floor)
  from assms(2) have "y * 1000000000 + 1 / 2 < 1000000001" by simp
  then have "\<lfloor>y * 1000000000 + 1 / 2\<rfloor> < 1000000001" by (simp add: floor_less_iff)
  then show "Math_round (y * 1000000000) \<le> 1000000000"
    unfolding Math_round_def by simp
qed

lemma toQuotation_signs_agree:
  "0 \<le> units (toQuotation x) * nano (toQuotation x) \<and> \<bar>nano (toQuotation x)\<bar> \<le> 1000000000"
proof -
  let ?a = "\<bar>x\<bar>"
  have f: "0 \<le> ?a - of_int \<lfloor>?a\<rfloor>" "?a - of_int \<lfloor>?a\<rfloor> < 1" by linarith+
  from Math_round_bounds[OF f] have n: "0 \<le> Math_round ((?a - of_int \<lfloor>?a\<rfloor>) * 1000000000)"
    "Math_round ((?a - of_int \<lfloor>?a\<rfloor>) * 1000000000) \<le> 1000000000" by simp_all
  have u: "0 \<le> \<lfloor>?a\<rfloor>" by simp
  from n u show ?thesis
    by (auto simp: toQuotation_def Let_def abs_mult)
qed

text \<open>
  In exact arithmetic a number survives the round trip through a quotation up to half a
  nano. The double arithmetic the code runs on is treated below.
\<close>

lemma nano_error:
  fixes A U N :: real
  assumes "(A - U) * 1000000000 - 1 / 2 \<le> N" and "N \<le> (A - U) * 1000000000 + 1 / 2"
  shows "\<bar>(U + N / 1000000000) - A\<bar> \<le> 1 / 2000000000"
  using assms by argo

lemma toQuotation_round_trip_exact:
  "toNumber (Some (toQuotation x)) = Some y \<Longrightarrow> \<bar>y - x\<bar> \<le> 1 / 2000000000"
proof -
  assume a: "toNumber (Some (toQuotation x)) = Some y"
  let ?a = "\<bar>x\<bar>"
  let ?u = "\<lfloor>?a\<rfloor>"
  let ?n = "Math_round ((?a - of_int ?u) * 1000000000)"
  have r1: "(?a - of_int ?u) * 1000000000 - 1 / 2 \<le> of_int ?n"
    unfolding Math_round_def by linarith
  have r2: "of_int ?n \<le> (?a - of_int ?u) * 1000000000 + 1 / 2"
    unfolding Math_round_def by linarith
  have d: "\<bar>(of_int ?u + of_int ?n / 1000000000) - ?a\<bar> \<le> 1 / 2000000000"
    using r1 r2 by (rule nano_error)
  show ?thesis
  proof (cases "x < 0")
    case True
    with a have "y = - (of_int ?u + of_int ?n / 1000000000)"
      by (simp add: toNumber_def toQuotation_def Let_def)
    moreover from True have "x = - ?a" by simp
    ultimately have "\<bar>y - x\<bar> = \<bar>(of_int ?u + of_int ?n / 1000000000) - ?a\<bar>"
      by (metis abs_minus_commute minus_diff_minus abs_minus)
    with d show ?thesis by simp
  next
    case False
    with a have "y = of_int ?u + of_int ?n / 1000000000"
      by (simp add: toNumber_def toQuotation_def Let_def)
    moreover from False have "x = ?a" by simp
    ultimately show ?thesis using d by simp
  qed
qed

text \<open>
  Claim C7, at the input \<open>1 - 2\<^sup>-\<^sup>3\<^sup>2\<close>. The number is a double, and so are its
  product with \<open>10\<^sup>9\<close> and every other intermediate value, so that the code computes
  on it exactly what the model does. The fractional part rounds up to a whole unit,
  which is not carried into \<open>units\<close>: the result has nano \<open>10\<^sup>9\<close>, outside the range
  of the invariant.
\<close>

theorem toQuotation_nano_overflow:
  "toQuotation (4294967295 / 4294967296) = \<lparr>units = 0, nano = 1000000000\<rparr>
   \<and> \<not> quotation_inv (toQuotation (4294967295 / 4294967296))"
  by (simp add: toQuotation_def Math_round_def Let_def quotation_inv_def)

subsection \<open>The round trip in double arithmetic\<close>

text \<open>
  The fractional part \<open>\<bar>x\<bar> - \<lfloor>\<bar>x\<bar>\<rfloor>\<close> is below one, so that its rounding errs by at most
  \<open>2\<^sup>-\<^sup>5\<^sup>4\<close>; the product with \<open>10\<^sup>9\<close> is below \<open>2\<^sup>3\<^sup>0\<close> and its rounding errs by at most
  \<open>2\<^sup>-\<^sup>2\<^sup>4\<close>; \<^verbatim>\<open>Math.round\<close> errs by at most a half; the quotient by \<open>10\<^sup>9\<close> is below two
  and its rounding errs by at most \<open>2\<^sup>-\<^sup>5\<^sup>3\<close>. Together the sum of units and the quotient
  is within \<open>5.000003 \<sqdot> 10\<^sup>-\<^sup>1\<^sup>0\<close> of \<open>x\<close> before it is rounded.
\<close>

lemma round_trip_error:
  fixes fr f' p N q S :: real
  assumes "S = 1 \<or> S = - 1"
    and "\<bar>f' - fr\<bar> \<le> 1 / 2 ^ 54"
    and "\<bar>p - f' * 1000000000\<bar> \<le> 1 / 2 ^ 24"
    and "\<bar>N - p\<bar> \<le> 1 / 2"
    and "\<bar>q - S * N / 1000000000\<bar> \<le> 1 / 2 ^ 53"
  shows "\<bar>q - S * fr\<bar> \<le> 5000003 / 10 ^ 16"
  using assms(1)
proof
  assume "S = 1"
  with assms(2-5) show ?thesis by simp argo
next
  assume "S = - 1"
  with assms(2-5) show ?thesis by simp argo
qed

lemma Math_round_error: "\<bar>of_int (Math_round p) - p\<bar> \<le> 1 / 2"
  unfolding Math_round_def by linarith

lemma round_trip_magnitudes:
  fixes fr f' p N :: real
  assumes "0 \<le> fr" and "fr < 1"
    and "\<bar>f' - fr\<bar> \<le> 1 / 2 ^ 54"
  shows "\<bar>f' * 1000000000\<bar> < 2 ^ 30"
    and "\<bar>p - f' * 1000000000\<bar> \<le> 1 / 2 ^ 24 \<Longrightarrow> \<bar>N - p\<bar> \<le> 1 / 2 \<Longrightarrow>
         \<bar>N\<bar> < 2000000000"
proof -
  from assms show "\<bar>f' * 1000000000\<bar> < 2 ^ 30" by simp argo
  assume "\<bar>p - f' * 1000000000\<bar> \<le> 1 / 2 ^ 24" "\<bar>N - p\<bar> \<le> 1 / 2"
  with assms show "\<bar>N\<bar> < 2000000000" by simp argo
qed

text \<open>
  The last rounding, of the sum. Below \<open>2\<^sup>2\<^sup>3\<close> it errs by at most \<open>2\<^sup>-\<^sup>3\<^sup>1\<close>, which
  keeps the total under \<open>10\<^sup>-\<^sup>9\<close>. From \<open>2\<^sup>2\<^sup>3\<close> on the result is a multiple of
  \<open>2\<^sup>-\<^sup>2\<^sup>9\<close> and \<open>x\<close>, a double of magnitude at least \<open>2\<^sup>2\<^sup>2\<close>, a multiple of \<open>2\<^sup>-\<^sup>3\<^sup>0\<close>;
  the result is at least as near to the sum as \<open>x\<close> is, hence less than \<open>2 \<sqdot> 2\<^sup>-\<^sup>3\<^sup>0\<close>
  from \<open>x\<close>, hence at most \<open>2\<^sup>-\<^sup>3\<^sup>0\<close> from it.
\<close>

lemma round_trip_grid_step:
  fixes y x :: real and m1 m2 :: int
  assumes "y = of_int m1 * (1 / 2 ^ 29)" and "x = of_int m2 * (1 / 2 ^ 30)"
    and "\<bar>y - x\<bar> \<le> 10000006 / 10 ^ 16"
  shows "\<bar>y - x\<bar> \<le> 1 / 1000000000"
proof -
  have d: "y - x = of_int (2 * m1 - m2) * (1 / 2 ^ 30)"
    by (simp add: assms(1,2) field_simps)
  with assms(3) have "\<bar>real_of_int (2 * m1 - m2)\<bar> * (1 / 2 ^ 30) \<le> 10000006 / 10 ^ 16"
    by (simp add: abs_mult)
  then have "\<bar>real_of_int (2 * m1 - m2)\<bar> < 2" by simp
  then have "\<bar>2 * m1 - m2\<bar> < 2" by linarith
  then have "\<bar>2 * m1 - m2\<bar> \<le> 1" by simp
  then have "\<bar>real_of_int (2 * m1 - m2)\<bar> \<le> 1"
    by (metis of_int_abs of_int_le_iff of_int_1)
  moreover have "\<bar>y - x\<bar> = \<bar>real_of_int (2 * m1 - m2)\<bar> * (1 / 2 ^ 30)"
    by (simp only: d abs_mult) simp
  ultimately show ?thesis by simp
qed

lemma quotation_round_trip_bound:
  assumes "to_double x = x"
  shows "\<bar>to_double (of_int (units (toQuotation_double x))
            + to_double (of_int (nano (toQuotation_double x)) / 1000000000)) - x\<bar>
         \<le> 1 / 1000000000"
proof -
  define S :: real where "S = (if x < 0 then - 1 else 1)"
  define a where "a = \<bar>x\<bar>"
  define u where "u = \<lfloor>a\<rfloor>"
  define fr where "fr = a - of_int u"
  define f' where "f' = to_double fr"
  define p where "p = to_double (f' * 1000000000)"
  define n where "n = Math_round p"
  define q where "q = to_double (S * of_int n / 1000000000)"
  define Y where "Y = S * of_int u + q"
  have S: "S = 1 \<or> S = - 1" by (simp add: S_def)
  have un: "real_of_int (units (toQuotation_double x)) = S * of_int u"
    by (simp add: toQuotation_double_def Let_def S_def u_def a_def)
  have na: "real_of_int (nano (toQuotation_double x)) = S * of_int n"
    by (simp add: toQuotation_double_def Let_def S_def n_def p_def f'_def fr_def u_def a_def)
  have x: "x = S * a" by (simp add: S_def a_def)
  have fr: "0 \<le> fr" "fr < 1" unfolding fr_def u_def by linarith+
  have 1: "\<bar>f' - fr\<bar> \<le> 1 / 2 ^ 54"
    using to_double_error_bound[of fr 0] fr by (simp add: f'_def pow2_numerals)
  from round_trip_magnitudes(1)[OF fr 1] have "\<bar>f' * 1000000000\<bar> < 2 ^ 30" .
  then have 2: "\<bar>p - f' * 1000000000\<bar> \<le> 1 / 2 ^ 24"
    using to_double_error_bound[of "f' * 1000000000" 30] by (simp add: p_def pow2_numerals)
  have 3: "\<bar>of_int n - p\<bar> \<le> 1 / 2" unfolding n_def by (rule Math_round_error)
  from round_trip_magnitudes(2)[OF fr 1 2 3] have nb: "\<bar>real_of_int n\<bar> < 2000000000" .
  have "\<bar>S * of_int n / 1000000000\<bar> < 2"
    using S nb by (auto simp: abs_less_iff)
  then have 4: "\<bar>q - S * of_int n / 1000000000\<bar> \<le> 1 / 2 ^ 53"
    using to_double_error_bound[of "S * of_int n / 1000000000" 1]
    by (simp add: q_def pow2_numerals)
  from round_trip_error[OF S 1 2 3 4] have d: "\<bar>q - S * fr\<bar> \<le> 5000003 / 10 ^ 16" .
  have yx: "Y - x = q - S * fr" by (simp add: Y_def x fr_def algebra_simps)
  have goal: "to_double (of_int (units (toQuotation_double x))
            + to_double (of_int (nano (toQuotation_double x)) / 1000000000)) = to_double Y"
    by (simp add: un na Y_def q_def)
  show ?thesis
  proof (cases "\<bar>Y\<bar> < 2 ^ 23")
    case True
    then have "\<bar>to_double Y - Y\<bar> \<le> 1 / 2 ^ 31"
      using to_double_error_bound[of Y 23] by (simp add: pow2_numerals)
    with d yx have "\<bar>to_double Y - x\<bar> \<le> 1 / 1000000000" by (simp add: abs_le_iff) argo
    with goal show ?thesis by simp
  next
    case False
    then have big: "pow2 23 \<le> \<bar>Y\<bar>" by (simp add: pow2_numerals)
    from to_double_grid[OF big] obtain m1 where m1: "to_double Y = of_int m1 * (1 / 2 ^ 29)"
      by (auto simp: pow2_numerals)
    from False d yx have "pow2 22 \<le> \<bar>x\<bar>" by (simp add: pow2_numerals abs_le_iff) argo
    from to_double_grid[OF this] assms obtain m2 where m2: "x = of_int m2 * (1 / 2 ^ 30)"
      by (auto simp: pow2_numerals)
    from to_double_nearest[OF assms, of Y] have "\<bar>to_double Y - Y\<bar> \<le> \<bar>x - Y\<bar>" .
    with d yx have "\<bar>to_double Y - x\<bar> \<le> 10000006 / 10 ^ 16" by (simp add: abs_le_iff) argo
    from round_trip_grid_step[OF m1 m2 this] goal show ?thesis by simp
  qed
qed

text \<open>
  No operation of the round trip overflows: the intermediate values are small, and the
  result is \<open>x\<close> itself when \<open>x\<close> is \<open>2\<^sup>5\<^sup>3\<close> or more in magnitude (such a double is an
  integer, its nano is zero).
\<close>

lemma round_trip_integer:
  assumes "to_double x = x" and "2 ^ 53 \<le> \<bar>x\<bar>"
  shows "to_double (of_int (units (toQuotation_double x))
            + to_double (of_int (nano (toQuotation_double x)) / 1000000000)) = x"
proof -
  from assms(2) have "pow2 53 \<le> \<bar>x\<bar>" by (simp add: pow2_numerals)
  from to_double_grid[OF this] assms(1) obtain m where "x = of_int m * 2"
    by (auto simp: pow2_numerals)
  then have x: "x = of_int (2 * m)" by simp
  then have "\<bar>x\<bar> = of_int \<bar>2 * m\<bar>" by (simp only: of_int_abs)
  then have fl: "real_of_int \<lfloor>\<bar>x\<bar>\<rfloor> = \<bar>x\<bar>" by (simp only: floor_of_int)
  have r0: "Math_round 0 = 0" by (simp add: Math_round_def)
  have d: "\<bar>x\<bar> - real_of_int \<lfloor>\<bar>x\<bar>\<rfloor> = 0" by (simp only: fl)
  have n: "nano (toQuotation_double x) = 0"
    unfolding toQuotation_double_def Let_def d by (simp add: to_double_zero r0)
  have "real_of_int (units (toQuotation_double x)) = (if x < 0 then - 1 else 1) * real_of_int \<lfloor>\<bar>x\<bar>\<rfloor>"
    by (simp add: toQuotation_double_def Let_def)
  also have "\<dots> = (if x < 0 then - 1 else 1) * \<bar>x\<bar>" by (simp only: fl)
  also have "\<dots> = x" by simp
  finally have u: "real_of_int (units (toQuotation_double x)) = x" .
  from n u assms(1) show ?thesis by (simp add: to_double_zero)
qed

lemma round_trip_intermediates:
  "\<bar>to_double (\<bar>x\<bar> - of_int \<lfloor>\<bar>x\<bar>\<rfloor>)\<bar> < 2"
  "\<bar>to_double (to_double (\<bar>x\<bar> - of_int \<lfloor>\<bar>x\<bar>\<rfloor>) * 1000000000)\<bar> < 2 ^ 31"
  "\<bar>nano (toQuotation_double x)\<bar> < 2000000000"
  "\<bar>to_double (of_int (nano (toQuotation_double x)) / 1000000000)\<bar> < 3"
proof -
  define S :: real where "S = (if x < 0 then - 1 else 1)"
  define fr where "fr = \<bar>x\<bar> - of_int \<lfloor>\<bar>x\<bar>\<rfloor>"
  define f' where "f' = to_double fr"
  define p where "p = to_double (f' * 1000000000)"
  define n where "n = Math_round p"
  define q where "q = to_double (S * of_int n / 1000000000)"
  have S: "S = 1 \<or> S = - 1" by (simp add: S_def)
  have na: "real_of_int (nano (toQuotation_double x)) = S * of_int n"
    by (simp add: toQuotation_double_def Let_def S_def n_def p_def f'_def fr_def)
  have fr: "0 \<le> fr" "fr < 1" unfolding fr_def by linarith+
  have 1: "\<bar>f' - fr\<bar> \<le> 1 / 2 ^ 54"
    using to_double_error_bound[of fr 0] fr by (simp add: f'_def pow2_numerals)
  with fr have "\<bar>f'\<bar> < 2" by simp argo
  then show "\<bar>to_double (\<bar>x\<bar> - of_int \<lfloor>\<bar>x\<bar>\<rfloor>)\<bar> < 2" by (simp add: f'_def fr_def)
  from round_trip_magnitudes(1)[OF fr 1] have m: "\<bar>f' * 1000000000\<bar> < 2 ^ 30" .
  then have 2: "\<bar>p - f' * 1000000000\<bar> \<le> 1 / 2 ^ 24"
    using to_double_error_bound[of "f' * 1000000000" 30] by (simp add: p_def pow2_numerals)
  with m have "\<bar>p\<bar> < 2 ^ 31" by simp argo
  then show "\<bar>to_double (to_double (\<bar>x\<bar> - of_int \<lfloor>\<bar>x\<bar>\<rfloor>) * 1000000000)\<bar> < 2 ^ 31"
    by (simp add: p_def f'_def fr_def)
  have 3: "\<bar>of_int n - p\<bar> \<le> 1 / 2" unfolding n_def by (rule Math_round_error)
  from round_trip_magnitudes(2)[OF fr 1 2 3] have nb: "\<bar>real_of_int n\<bar> < 2000000000" .
  with S na have "\<bar>real_of_int (nano (toQuotation_double x))\<bar> < 2000000000"
    by (auto simp: abs_less_iff)
  then show "\<bar>nano (toQuotation_double x)\<bar> < 2000000000" by linarith
  have b: "\<bar>S * of_int n / 1000000000\<bar> < 2"
    using S nb by (auto simp: abs_less_iff)
  then have "\<bar>q - S * of_int n / 1000000000\<bar> \<le> 1 / 2 ^ 53"
    using to_double_error_bound[of "S * of_int n / 1000000000" 1]
    by (simp add: q_def pow2_numerals)
  with b have "\<bar>q\<bar> < 3" by simp argo
  then show "\<bar>to_double (of_int (nano (toQuotation_double x)) / 1000000000)\<bar> < 3"
    by (simp add: q_def na)
qed

text \<open>Three round trips evaluated: a positive number, zero and a negative number.\<close>

lemma is_double_example: "is_double (3 / 2)"
proof -
  have "(3 / 2 :: real) = of_int 3 * pow2 (- 1)" by (simp add: pow2_numerals)
  then have "to_double (3 / 2) = 3 / 2" by (rule to_double_exact) simp_all
  moreover have "\<bar>3 / 2 :: real\<bar> \<le> MAX_VALUE" using MAX_VALUE_large by simp
  ultimately show ?thesis by (simp add: is_double_def)
qed

lemma round_trip_example:
  "toQuotation_double (3 / 2) = \<lparr>units = 1, nano = 500000000\<rparr>"
  "toNumber_double (Some (toQuotation_double (3 / 2))) = Some (3 / 2)"
proof -
  have a: "to_double 500000000 = 500000000" using to_double_int[of 500000000] by simp
  have f: "\<lfloor>3 / 2 :: real\<rfloor> = 1" by simp
  show q: "toQuotation_double (3 / 2) = \<lparr>units = 1, nano = 500000000\<rparr>"
    by (simp add: toQuotation_double_def Let_def f to_double_half a Math_round_def)
  have "to_double (3 / 2) = 3 / 2" using is_double_example by (simp add: is_double_def)
  then show "toNumber_double (Some (toQuotation_double (3 / 2))) = Some (3 / 2)"
    by (simp add: q toNumber_double_def to_double_half)
qed

lemma round_trip_examples:
  "is_double 0" "toNumber_double (Some (toQuotation_double 0)) = Some 0"
  "is_double (- (3 / 2))" "toNumber_double (Some (toQuotation_double (- (3 / 2)))) = Some (- (3 / 2))"
proof -
  show z: "is_double 0" using MAX_VALUE_large by (simp add: is_double_def to_double_zero)
  show "toNumber_double (Some (toQuotation_double 0)) = Some 0"
    by (simp add: toNumber_double_def toQuotation_double_def Let_def to_double_zero Math_round_def)
  have "(- (3 / 2) :: real) = of_int (- 3) * pow2 (- 1)" by (simp add: pow2_numerals)
  then have m: "to_double (- (3 / 2)) = - (3 / 2)" by (rule to_double_exact) simp_all
  then show "is_double (- (3 / 2))" using MAX_VALUE_large by (simp add: is_double_def)
  have "(- (1 / 2) :: real) = of_int (- 1) * pow2 (- 1)" by (simp add: pow2_numerals)
  then have h: "to_double (- (1 / 2)) = - (1 / 2)" by (rule to_double_exact) simp_all
  have a: "to_double 500000000 = 500000000" using to_double_int[of 500000000] by simp
  have f: "\<lfloor>3 / 2 :: real\<rfloor> = 1" by simp
  have q: "toQuotation_double (- (3 / 2)) = \<lparr>units = - 1, nano = - 500000000\<rparr>"
    by (simp add: toQuotation_double_def Let_def f to_double_half a Math_round_def)
  show "toNumber_double (Some (toQuotation_double (- (3 / 2)))) = Some (- (3 / 2))"
    unfolding q toNumber_double_def using m h by simp
qed

text \<open>
  Claim C6. For every finite number \<open>x\<close>, negative values and zero included,
  \<^verbatim>\<open>toNumber(toQuotation(x))\<close> differs from \<open>x\<close> by at most \<open>10\<^sup>-\<^sup>9\<close>.

  The statement is about the two functions in double arithmetic. For every finite
  double \<open>x\<close> the round trip returns a number \<open>y\<close> (not \<^verbatim>\<open>undefined\<close>: the quotation
  \<^verbatim>\<open>toQuotation\<close> returns is an object), \<open>y\<close> is within \<open>10\<^sup>-\<^sup>9\<close> of \<open>x\<close>, and \<open>y\<close> is
  a finite double.
\<close>

theorem quotation_round_trip_double:
  assumes "is_double x"
  shows "\<exists>y. toNumber_double (Some (toQuotation_double x)) = Some y
           \<and> \<bar>y - x\<bar> \<le> 1 / 1000000000 \<and> is_double y"
proof -
  let ?y = "to_double (of_int (units (toQuotation_double x))
            + to_double (of_int (nano (toQuotation_double x)) / 1000000000))"
  from assms have x: "to_double x = x" and m: "\<bar>x\<bar> \<le> MAX_VALUE" by (simp_all add: is_double_def)
  have e: "toNumber_double (Some (toQuotation_double x)) = Some ?y"
    by (simp add: toNumber_double_def)
  have b: "\<bar>?y - x\<bar> \<le> 1 / 1000000000" by (rule quotation_round_trip_bound[OF x])
  have "\<bar>?y\<bar> \<le> MAX_VALUE"
  proof (cases "2 ^ 53 \<le> \<bar>x\<bar>")
    case True
    from round_trip_integer[OF x True] m show ?thesis by simp
  next
    case False
    with b have "\<bar>?y\<bar> \<le> 2 ^ 53 + 1" by simp argo
    with MAX_VALUE_large show ?thesis by linarith
  qed
  then have "is_double ?y" by (simp add: is_double_def to_double_idem)
  with e b show ?thesis by blast
qed

theorem quotation_round_trip_double_witness:
  "is_double (3 / 2)
   \<and> toNumber_double (Some (toQuotation_double (3 / 2))) = Some (3 / 2)
   \<and> (\<exists>y. toNumber_double (Some (toQuotation_double (3 / 2))) = Some y
         \<and> \<bar>y - 3 / 2\<bar> \<le> 1 / 1000000000 \<and> is_double y)
   \<and> is_double 0
   \<and> toNumber_double (Some (toQuotation_double 0)) = Some 0
   \<and> is_double (- (3 / 2))
   \<and> toNumber_double (Some (toQuotation_double (- (3 / 2)))) = Some (- (3 / 2))"
  using quotation_round_trip_double[OF is_double_example] is_double_example round_trip_example(2)
    round_trip_examples
  by simp

text \<open>
  The double model and the exact one differ where a rounding of the double arithmetic
  crosses a tie of \<^verbatim>\<open>Math.round\<close>. At the double nearest to \<open>1.5 \<sqdot> 10\<^sup>-\<^sup>9\<close>, which is
  \<open>7253554917687775 \<sqdot> 2\<^sup>-\<^sup>8\<^sup>2\<close> and lies below it, the product with \<open>10\<^sup>9\<close> rounds to
  \<open>3/2\<close> and nano is 2; in exact arithmetic the product stays below \<open>3/2\<close> and nano
  is 1. At \<open>1 - 2\<^sup>-\<^sup>3\<^sup>2\<close> every intermediate value is a double and the two agree.
\<close>

lemma toQuotation_double_rounds_product:
  "is_double (7253554917687775 / 2 ^ 82)"
  "toQuotation_double (7253554917687775 / 2 ^ 82) = \<lparr>units = 0, nano = 2\<rparr>"
proof -
  let ?d = "7253554917687775 / 2 ^ 82 :: real"
  have "?d = of_int 7253554917687775 * pow2 (- 82)" by (simp add: pow2_numerals)
  then have a: "to_double ?d = ?d" by (rule to_double_exact) simp_all
  then show "is_double ?d" using MAX_VALUE_large by (simp add: is_double_def)
  have "pow2 0 \<le> \<bar>?d * 1000000000\<bar>" "\<bar>?d * 1000000000\<bar> < pow2 (0 + 1)"
    by (simp_all add: pow2_numerals)
  from to_double_binade[OF this]
  have "to_double (?d * 1000000000) =
      of_int (round_half_even (?d * 1000000000 / pow2 (- 52))) * pow2 (- 52)"
    by simp
  also have "round_half_even (?d * 1000000000 / pow2 (- 52)) = 6755399441055744"
    by (simp add: pow2_numerals round_half_even_def Let_def)
  finally have b: "to_double (?d * 1000000000) = 3 / 2" by (simp add: pow2_numerals)
  have f: "\<bar>?d\<bar> = ?d" "\<lfloor>?d\<rfloor> = 0" "\<not> ?d < 0" by simp_all
  have "to_double (to_double (?d - of_int 0) * 1000000000) = 3 / 2"
    by (simp only: of_int_0 diff_zero a b)
  then have "Math_round (to_double (to_double (?d - of_int 0) * 1000000000)) = 2"
    by (simp only: Math_round_def) simp
  then show "toQuotation_double ?d = \<lparr>units = 0, nano = 2\<rparr>"
    unfolding toQuotation_double_def Let_def f by simp
qed

lemma toQuotation_exact_product:
  "toQuotation (7253554917687775 / 2 ^ 82) = \<lparr>units = 0, nano = 1\<rparr>"
  by (simp add: toQuotation_def Math_round_def Let_def)

lemma toQuotation_double_nano_overflow:
  "toQuotation_double (4294967295 / 4294967296) = \<lparr>units = 0, nano = 1000000000\<rparr>"
proof -
  have "(4294967295 / 4294967296 :: real) = of_int 4294967295 * pow2 (- 32)"
    by (simp add: pow2_numerals)
  then have a: "to_double (4294967295 / 4294967296) = 4294967295 / 4294967296"
    by (rule to_double_exact) simp_all
  have "(8388607998046875 / 8388608 :: real) = of_int 8388607998046875 * pow2 (- 23)"
    by (simp add: pow2_numerals)
  then have b: "to_double (8388607998046875 / 8388608) = 8388607998046875 / 8388608"
    by (rule to_double_exact) simp_all
  show ?thesis
    by (simp add: toQuotation_double_def Let_def a) (simp add: b Math_round_def)
qed

section \<open>The trade history\<close>

text \<open>
  With a positive depth \<^verbatim>\<open>allTrades\<close> returns the projections of the most recent
  trades, the most recent first; without an instrument it returns the empty sequence
  and calls nothing.
\<close>

lemma slice_last:
  "0 < n \<Longrightarrow> slice xs (- n) = most_recent (nat n) xs"
  by (auto simp: slice_def most_recent_def Let_def max_def nat_diff_distrib' intro: arg_cong[where f="\<lambda>k. drop k xs"])

lemma slice_zero: "slice xs (- 0) = xs"
  by (simp add: slice_def)

lemma allTrades_absent: "allTrades E None n = ([], Inr [])"
  by (simp add: allTrades_def)

lemma allTrades_positive_depth:
  assumes "0 < n"
    and "getLastTrades E (tinkoffFigi i) (now E - 3600000) (now E + 3600000) = Inr trades"
  shows "snd (allTrades E (Some i) n) =
           Inr (map (trade_print E i) (rev (most_recent (nat n) trades)))"
  using assms by (simp add: allTrades_def Let_def slice_last)

text \<open>
  Claim C8, at depth 0. The unary call returns two trades, the older first.
  \<^verbatim>\<open>trades.slice(-0)\<close> is the whole array, so \<^verbatim>\<open>allTrades\<close> returns both trades,
  where the zero most recent trades are none.
\<close>

theorem allTrades_zero_depth:
  "snd (allTrades env1 (Some SBER) 0) = Inr (map (trade_print env1 SBER) [trade2, trade1])
   \<and> most_recent 0 [trade1, trade2] = []"
  by (simp add: allTrades_def Let_def slice_def most_recent_def env1_def)

section \<open>Routing a book message\<close>

lemma orderbook_to_sources_writes:
  "orderbook_to_sources ob i es s = (s', tr) \<Longrightarrow> WriteField w f v \<in> set tr \<Longrightarrow>
   \<exists>fs. (w, fs) \<in> set es \<and> source_instrument_id s w = Some (instrument_id i)
     \<and> (f, ORDERBOOK) \<in> set fs \<and> v = book_value ob"
proof (induction es arbitrary: s s' tr)
  case Nil
  then show ?case by simp
next
  case (Cons e es)
  from orderbook_to_sources_Cons[OF Cons.prems(1)] obtain s1 t1 t2 where
    a: "orderbook_to_source ob i e s = (s1, t1)" and b: "orderbook_to_sources ob i es s1 = (s', t2)"
    and c: "tr = t1 @ t2"
    by blast
  from Cons.prems(2) c have "WriteField w f v \<in> set t1 \<or> WriteField w f v \<in> set t2" by auto
  then show ?case
  proof
    assume "WriteField w f v \<in> set t1"
    with a show ?thesis
      by (intro exI[of _ "snd e"]) (auto simp: orderbook_to_source_eq split: if_splits)
  next
    assume "WriteField w f v \<in> set t2"
    from Cons.IH[OF b this] obtain fs where
      fs: "(w, fs) \<in> set es" "source_instrument_id s1 w = Some (instrument_id i)"
        "(f, ORDERBOOK) \<in> set fs" "v = book_value ob"
      by blast
    from orderbook_to_source_binding[OF a fs(2)] fs(1,3,4) show ?thesis by auto
  qed
qed

lemma orderbook_to_sources_visits:
  "orderbook_to_sources ob i es s = (s', tr) \<Longrightarrow> (w, fs) \<in> set es \<Longrightarrow>
   source_instrument_id s w = Some (instrument_id i) \<Longrightarrow>
   map_of (refs_orderbook s) (instrument_id i) \<noteq> None \<Longrightarrow> tr \<noteq> []"
proof (induction es arbitrary: s s' tr)
  case Nil
  then show ?case by simp
next
  case (Cons e es)
  from orderbook_to_sources_Cons[OF Cons.prems(1)] obtain s1 t1 t2 where
    a: "orderbook_to_source ob i e s = (s1, t1)" and b: "orderbook_to_sources ob i es s1 = (s', t2)"
    and c: "tr = t1 @ t2"
    by blast
  show ?case
  proof (cases "source_instrument_id s (fst e) = Some (instrument_id i)")
    case True
    with a Cons.prems(4) have "t1 \<noteq> []" by (auto simp: orderbook_to_source_eq)
    with c show ?thesis by simp
  next
    case False
    with a have s1: "s1 = s" by (simp add: orderbook_to_source_eq)
    from False Cons.prems(3) have "e \<noteq> (w, fs)" by auto
    with Cons.prems(2) have "(w, fs) \<in> set es" by simp
    from Cons.IH[OF b[unfolded s1] this Cons.prems(3,4)] c show ?thesis by simp
  qed
qed


lemma trader1_widgets:
  "widgets trader1 0 = [''instrument'' \<mapsto> VInstrument SBER]"
  "widgets trader1 (Suc 0) = [''instrument'' \<mapsto> VInstrument GAZP]"
  "source_instrument_id trader1 0 = Some ''sber''"
  "source_instrument_id trader1 (Suc 0) = Some ''gazp''"
  by (simp_all add: trader1_def trader0_def source_instrument_id_def SBER_def GAZP_def)

lemma trader1_book1:
  "snd (onOrderbookMessage trader1 (Some book1) (Some SBER)) =
     [StoreSnapshot ''sber'' book1, WriteField 0 ''book'' (book_value book1)]"
  "widgets (fst (onOrderbookMessage trader1 (Some book1) (Some SBER))) 0 ''book'' =
     Some (book_value book1)"
  by (simp_all add: onOrderbookMessage_def orderbook_to_source_eq trader1_simps trader1_widgets
      source_instrument_id_def SBER_def GAZP_def Let_def split: prod.splits)

text \<open>
  Claim C9. When \<^verbatim>\<open>onOrderbookMessage\<close> routes a book message for instrument \<open>i\<close>,
  a property of a consumer is written, or changes, only if the consumer has subscribed
  to the order book, is bound to \<open>i\<close> and the property is one of its order-book target
  fields; the properties of every other consumer stay as they are. The stream loop
  routes a book message with the instrument the index gives for the message's figi;
  when the index has none, the message is dropped: no error, no write, the trader
  unchanged.
\<close>

theorem book_message_routing:
  "(\<forall>s' tr w f v.
      onOrderbookMessage s (Some ob) (Some i) = (s', tr)
      \<and> (widgets s' w f \<noteq> widgets s w f \<or> WriteField w f v \<in> set tr) \<longrightarrow>
        (\<exists>fs. (w, fs) \<in> set (subs_orderbook s)
           \<and> source_instrument_id s w = Some (instrument_id i)
           \<and> (f, ORDERBOOK) \<in> set fs))
   \<and> onStreamData E s \<lparr>data_orderbook = Some ob, data_trade = t\<rparr> =
       onOrderbookMessage s (Some ob) (figis s (orderbook_figi ob))
   \<and> (figis s (orderbook_figi ob) = None \<longrightarrow>
        onStreamData E s \<lparr>data_orderbook = Some ob, data_trade = t\<rparr> = (s, []))"
proof (intro conjI allI impI)
  fix s' tr w f v
  assume a: "onOrderbookMessage s (Some ob) (Some i) = (s', tr)
      \<and> (widgets s' w f \<noteq> widgets s w f \<or> WriteField w f v \<in> set tr)"
  then have r: "orderbook_to_sources ob i (subs_orderbook s) s = (s', tr)"
    by (simp add: onOrderbookMessage_def)
  from a have "widgets s' w f \<noteq> widgets s w f \<or> WriteField w f v \<in> set tr" by simp
  then show "\<exists>fs. (w, fs) \<in> set (subs_orderbook s)
           \<and> source_instrument_id s w = Some (instrument_id i)
           \<and> (f, ORDERBOOK) \<in> set fs"
  proof
    assume "widgets s' w f \<noteq> widgets s w f"
    from orderbook_to_sources_written[OF r this] show ?thesis by blast
  next
    assume "WriteField w f v \<in> set tr"
    from orderbook_to_sources_writes[OF r this] show ?thesis by blast
  qed
next
  show "onStreamData E s \<lparr>data_orderbook = Some ob, data_trade = t\<rparr> =
       onOrderbookMessage s (Some ob) (figis s (orderbook_figi ob))"
    by (simp add: onStreamData_def)
next
  assume "figis s (orderbook_figi ob) = None"
  then show "onStreamData E s \<lparr>data_orderbook = Some ob, data_trade = t\<rparr> = (s, [])"
    by (simp add: onStreamData_def onOrderbookMessage_def)
qed

theorem book_message_routing_witness:
  "snd (onOrderbookMessage trader1 (Some book1) (Some SBER)) =
     [StoreSnapshot ''sber'' book1, WriteField 0 ''book'' (book_value book1)]
   \<and> widgets trader1 0 ''book'' = None
   \<and> widgets (fst (onOrderbookMessage trader1 (Some book1) (Some SBER))) 0 ''book'' =
       Some (book_value book1)
   \<and> (\<exists>fs. (0, fs) \<in> set (subs_orderbook trader1)
         \<and> source_instrument_id trader1 0 = Some (instrument_id SBER)
         \<and> (''book'', ORDERBOOK) \<in> set fs)
   \<and> widgets (fst (onOrderbookMessage trader1 (Some book1) (Some SBER))) 1 = widgets trader1 1
   \<and> figis trader0 (orderbook_figi book1) = None
   \<and> onStreamData env1 trader0 \<lparr>data_orderbook = Some book1, data_trade = None\<rparr> = (trader0, [])"
proof -
  obtain s' tr where r: "onOrderbookMessage trader1 (Some book1) (Some SBER) = (s', tr)"
    by (cases "onOrderbookMessage trader1 (Some book1) (Some SBER)")
  note T = book_message_routing[of trader1 book1 SBER env1 None]
  have n: "widgets trader1 0 ''book'' = None" by (simp add: trader1_widgets)
  have w: "widgets s' 0 ''book'' = Some (book_value book1)"
    using trader1_book1(2) r by simp
  from T r n w have 1: "\<exists>fs. (0, fs) \<in> set (subs_orderbook trader1)
         \<and> source_instrument_id trader1 0 = Some (instrument_id SBER)
         \<and> (''book'', ORDERBOOK) \<in> set fs"
    by (metis option.distinct(1))
  have 2: "widgets s' 1 = widgets trader1 1"
  proof (rule ext, rule ccontr)
    fix f
    assume "widgets s' 1 f \<noteq> widgets trader1 1 f"
    with T r have "source_instrument_id trader1 1 = Some (instrument_id SBER)" by blast
    then show False by (simp add: trader1_widgets SBER_def)
  qed
  have f: "figis trader0 (orderbook_figi book1) = None" by (simp add: trader0_def)
  note T0 = book_message_routing[of trader0 book1 SBER env1 None]
  from T0 f have 3:
    "onStreamData env1 trader0 \<lparr>data_orderbook = Some book1, data_trade = None\<rparr> = (trader0, [])"
    by blast
  from trader1_book1 n 1 2 f 3 r show ?thesis by simp
qed

lemma orderbook_to_sources_unbound:
  "\<forall>e\<in>set es. source_instrument_id s (fst e) \<noteq> Some (instrument_id i) \<Longrightarrow>
   orderbook_to_sources ob i es s = (s, [])"
  by (induction es) (simp_all add: orderbook_to_source_eq)

lemma trader4_simps:
  "refs_orderbook trader4 =
     [(''sber'', \<lparr>refCount = 1, instrument = SBER, lastOrderbookData = None\<rparr>),
      (''gazp'', \<lparr>refCount = 1, instrument = GAZP, lastOrderbookData = None\<rparr>)]"
  "subs_orderbook trader4 = []"
  by (simp_all add: trader4_def trader1_simps)

text \<open>
  The claim C10 as stated, that the raw message is stored whenever the reference exists,
  fails: the store is a statement of the loop over the subscribed consumers. Here SBER
  has a reference and no consumer has subscribed; the call returns the trader as it was,
  and the reference caches nothing.
\<close>

theorem book_message_needs_ref_counterexample:
  "map_of (refs_orderbook trader4) (instrument_id SBER) =
     Some \<lparr>refCount = 1, instrument = SBER, lastOrderbookData = None\<rparr>
   \<and> onOrderbookMessage trader4 (Some book1) (Some SBER) = (trader4, [])
   \<and> \<not> cached (fst (onOrderbookMessage trader4 (Some book1) (Some SBER))) (instrument_id SBER) book1"
  by (simp add: onOrderbookMessage_def trader4_simps cached_def SBER_def)

text \<open>
  Claim C10, amended. Let \<^verbatim>\<open>onOrderbookMessage\<close> be called with a book message and an
  instrument \<open>i\<close>. Without a reference for \<open>i\<close> in the order-book map the call changes
  nothing, and a consumer's field is written, or changes, only if that reference exists.
  When the reference exists and at least one subscribed consumer is bound to \<open>i\<close>, the
  raw message is stored as the cached snapshot of the reference, and every write of a
  field comes after such a store. When no subscribed consumer is bound to \<open>i\<close>, the call
  changes nothing, whether the reference exists or not.
\<close>

theorem book_message_needs_ref:
  "(map_of (refs_orderbook s) (instrument_id i) = None \<longrightarrow>
      onOrderbookMessage s (Some ob) (Some i) = (s, []))
   \<and> (\<forall>s' tr. onOrderbookMessage s (Some ob) (Some i) = (s', tr) \<longrightarrow>
        stored_before_written (instrument_id i) ob tr
        \<and> (tr \<noteq> [] \<longrightarrow> cached s' (instrument_id i) ob)
        \<and> (\<forall>w f v. widgets s' w f \<noteq> widgets s w f \<or> WriteField w f v \<in> set tr \<longrightarrow>
              map_of (refs_orderbook s) (instrument_id i) \<noteq> None)
        \<and> (\<forall>w fs. map_of (refs_orderbook s) (instrument_id i) \<noteq> None
              \<and> (w, fs) \<in> set (subs_orderbook s)
              \<and> source_instrument_id s w = Some (instrument_id i) \<longrightarrow>
                tr \<noteq> []))
   \<and> ((\<forall>e\<in>set (subs_orderbook s). source_instrument_id s (fst e) \<noteq> Some (instrument_id i)) \<longrightarrow>
        onOrderbookMessage s (Some ob) (Some i) = (s, []))"
proof (intro conjI allI impI)
  assume "map_of (refs_orderbook s) (instrument_id i) = None"
  then show "onOrderbookMessage s (Some ob) (Some i) = (s, [])"
    by (simp add: onOrderbookMessage_def orderbook_to_sources_no_ref)
next
  fix s' tr
  assume "onOrderbookMessage s (Some ob) (Some i) = (s', tr)"
  then have r: "orderbook_to_sources ob i (subs_orderbook s) s = (s', tr)"
    by (simp add: onOrderbookMessage_def)
  show "stored_before_written (instrument_id i) ob tr"
    by (rule orderbook_to_sources_order[OF r])
  {
    assume "tr \<noteq> []"
    then show "cached s' (instrument_id i) ob"
      by (intro orderbook_to_sources_cached[OF r]) simp
  }
  {
    fix w f v
    assume d: "widgets s' w f \<noteq> widgets s w f \<or> WriteField w f v \<in> set tr"
    show "map_of (refs_orderbook s) (instrument_id i) \<noteq> None"
    proof
      assume "map_of (refs_orderbook s) (instrument_id i) = None"
      from orderbook_to_sources_no_ref[OF this, of ob "subs_orderbook s"] r
      have "s' = s" "tr = []" by simp_all
      with d show False by simp
    qed
  }
  {
    fix w fs
    assume "map_of (refs_orderbook s) (instrument_id i) \<noteq> None
              \<and> (w, fs) \<in> set (subs_orderbook s)
              \<and> source_instrument_id s w = Some (instrument_id i)"
    then show "tr \<noteq> []"
      using orderbook_to_sources_visits[OF r, of w fs] by blast
  }
next
  assume "\<forall>e\<in>set (subs_orderbook s). source_instrument_id s (fst e) \<noteq> Some (instrument_id i)"
  then show "onOrderbookMessage s (Some ob) (Some i) = (s, [])"
    by (simp add: onOrderbookMessage_def orderbook_to_sources_unbound)
qed

theorem book_message_needs_ref_witness:
  "map_of (refs_orderbook trader1) (instrument_id SBER) \<noteq> None
   \<and> (0, [(''book'', ORDERBOOK)]) \<in> set (subs_orderbook trader1)
   \<and> source_instrument_id trader1 0 = Some (instrument_id SBER)
   \<and> snd (onOrderbookMessage trader1 (Some book1) (Some SBER)) \<noteq> []
   \<and> cached (fst (onOrderbookMessage trader1 (Some book1) (Some SBER))) (instrument_id SBER) book1
   \<and> stored_before_written (instrument_id SBER) book1
        (snd (onOrderbookMessage trader1 (Some book1) (Some SBER)))
   \<and> map_of (refs_orderbook trader3) (instrument_id SBER) = None
   \<and> onOrderbookMessage trader3 (Some book1) (Some SBER) = (trader3, [])"
proof -
  obtain s' tr where r: "onOrderbookMessage trader1 (Some book1) (Some SBER) = (s', tr)"
    by (cases "onOrderbookMessage trader1 (Some book1) (Some SBER)")
  have a: "map_of (refs_orderbook trader1) (instrument_id SBER) \<noteq> None"
    by (simp add: trader1_simps SBER_def)
  have b: "(0, [(''book'', ORDERBOOK)]) \<in> set (subs_orderbook trader1)"
    by (simp add: trader1_simps)
  have c: "source_instrument_id trader1 0 = Some (instrument_id SBER)"
    by (simp add: trader1_widgets SBER_def)
  note T = book_message_needs_ref[of trader1 SBER book1]
  from T r a b c have 1: "tr \<noteq> []" by blast
  with T r have 2: "cached s' (instrument_id SBER) book1"
    and 3: "stored_before_written (instrument_id SBER) book1 tr" by blast+
  have d: "map_of (refs_orderbook trader3) (instrument_id SBER) = None"
    by (simp add: trader3_def)
  note T3 = book_message_needs_ref[of trader3 SBER book1]
  from T3 d have 4: "onOrderbookMessage trader3 (Some book1) (Some SBER) = (trader3, [])"
    by blast
  from a b c 1 2 3 d 4 r show ?thesis by simp
qed

section \<open>The first reference\<close>













end
